theory Spec2Isabelle
  imports Complex_Main "HOL-Library.AList"
begin

section \<open>Python values, faults and float operations\<close>

text \<open>
  The module \<^verbatim>\<open>emp_priors.py\<close> is embedded function by function. An uncaught
  Python exception is a value \<open>Inl e\<close>; a normal return is \<open>Inr v\<close>. Floats are
  modelled by the reals: rounding and overflow are not represented. The operators
  \<^verbatim>\<open>/\<close> and \<^verbatim>\<open>**\<close> on the numbers read from the data tables and from a cache
  file follow Python's float semantics, which raise on a zero divisor. The statistics
  that the sampler reports are \<^verbatim>\<open>numpy.float64\<close> scalars: there a division by zero
  raises nothing and gives \<^verbatim>\<open>inf\<close>, \<^verbatim>\<open>-inf\<close> or \<^verbatim>\<open>nan\<close> with a warning.
\<close>

datatype error =
    OSError
  | IOError
  | JSONDecodeError
  | KeyError
  | TypeError
  | ZeroDivisionError
  | ValueError
  | NameError
  | SystemExit nat
  | SamplerError

definition bind :: "error + 'a \<Rightarrow> ('a \<Rightarrow> error + 'b) \<Rightarrow> error + 'b" where
  "bind m f = (case m of Inl e \<Rightarrow> Inl e | Inr x \<Rightarrow> f x)"

definition pydiv :: "real \<Rightarrow> real \<Rightarrow> error + real" where
  \<comment> \<open>\<^verbatim>\<open>a / b\<close> on Python floats\<close>
  "pydiv a b = (if b = 0 then Inl ZeroDivisionError else Inr (a / b))"

definition pypow :: "real \<Rightarrow> real \<Rightarrow> error + real" where
  \<comment> \<open>\<^verbatim>\<open>b ** e\<close> on Python 2 floats\<close>
  "pypow b e =
     (if e = 0 then Inr 1
      else if b = 0 then (if e < 0 then Inl ZeroDivisionError else Inr 0)
      else if 0 < b then Inr (b powr e)
      else if e \<in> \<int> then Inr (if even \<lfloor>e\<rfloor> then \<bar>b\<bar> powr e else - (\<bar>b\<bar> powr e))
      else Inl ValueError)"

definition inv_sq :: "real \<Rightarrow> error + real" where
  \<comment> \<open>\<^verbatim>\<open>x ** -2\<close> on Python floats\<close>
  "inv_sq x = (if x = 0 then Inl ZeroDivisionError else Inr (1 / x\<^sup>2))"

definition np_log :: "real \<Rightarrow> real option" where
  \<comment> \<open>\<^verbatim>\<open>log\<close> of numpy: at a non-positive argument it returns \<^verbatim>\<open>-inf\<close> or
      \<^verbatim>\<open>nan\<close> with a warning and raises nothing; \<open>None\<close> stands for those
      non-finite results\<close>
  "np_log x = (if 0 < x then Some (ln x) else None)"

datatype nonfinite = PosInf | NegInf | NaN

datatype float64 = Finite real | NonFinite nonfinite

definition np_div :: "real \<Rightarrow> real \<Rightarrow> float64" where
  \<comment> \<open>\<^verbatim>\<open>a / b\<close> on \<^verbatim>\<open>numpy.float64\<close>, for finite \<open>a\<close> and \<open>b\<close> (a zero \<open>b\<close> being
      \<^verbatim>\<open>+0.0\<close>, as a square is)\<close>
  "np_div a b =
     (if b \<noteq> 0 then Finite (a / b)
      else if 0 < a then NonFinite PosInf
      else if a < 0 then NonFinite NegInf
      else NonFinite NaN)"

definition np_sub :: "float64 \<Rightarrow> real \<Rightarrow> float64" where
  \<comment> \<open>\<^verbatim>\<open>q - c\<close> for a finite \<open>c\<close>\<close>
  "np_sub q c = (case q of Finite y \<Rightarrow> Finite (y - c) | NonFinite n \<Rightarrow> NonFinite n)"

definition np_mul :: "real \<Rightarrow> float64 \<Rightarrow> float64" where
  \<comment> \<open>\<^verbatim>\<open>a * q\<close> for a finite \<open>a\<close>\<close>
  "np_mul a q =
     (case q of
        Finite y \<Rightarrow> Finite (a * y)
      | NonFinite PosInf \<Rightarrow>
          (if 0 < a then NonFinite PosInf else if a < 0 then NonFinite NegInf else NonFinite NaN)
      | NonFinite NegInf \<Rightarrow>
          (if 0 < a then NonFinite NegInf else if a < 0 then NonFinite PosInf else NonFinite NaN)
      | NonFinite NaN \<Rightarrow> NonFinite NaN)"

definition np_inv_sq :: "real \<Rightarrow> float64" where
  \<comment> \<open>\<^verbatim>\<open>x ** -2\<close> on \<^verbatim>\<open>numpy.float64\<close>\<close>
  "np_inv_sq x = (if x = 0 then NonFinite PosInf else Finite (1 / x\<^sup>2))"

fun str_nat :: "nat \<Rightarrow> string" where
  "str_nat n =
     (if n < 10 then [''0123456789'' ! n]
      else str_nat (n div 10) @ [''0123456789'' ! (n mod 10)])"

declare str_nat.simps [simp del]

definition str_int :: "int \<Rightarrow> string" where
  \<comment> \<open>\<^verbatim>\<open>'%s' % i\<close> for an integer\<close>
  "str_int i = (if i < 0 then CHR ''-'' # str_nat (nat (- i)) else str_nat (nat i))"


section \<open>JSON values\<close>

datatype json =
    JNull
  | JBool bool
  | JNum real
  | JNonFinite nonfinite
  | JStr string
  | JArr "json list"
  | JObj "(string \<times> json) list"

text \<open>
  JSON numbers are read as Python floats, as the cache files written by this module
  hold them. \<open>JNonFinite\<close> stands for \<^verbatim>\<open>Infinity\<close>, \<^verbatim>\<open>-Infinity\<close> and \<^verbatim>\<open>NaN\<close>,
  which simplejson writes and reads; \<open>as_float\<close> reads the finite numbers.
\<close>

definition json_float :: "float64 \<Rightarrow> json" where
  "json_float q = (case q of Finite r \<Rightarrow> JNum r | NonFinite n \<Rightarrow> JNonFinite n)"

definition getitem :: "json \<Rightarrow> string \<Rightarrow> error + json" where
  \<comment> \<open>\<^verbatim>\<open>j[k]\<close> with a string key\<close>
  "getitem j k =
     (case j of
        JObj kvs \<Rightarrow> (case map_of kvs k of None \<Rightarrow> Inl KeyError | Some v \<Rightarrow> Inr v)
      | _ \<Rightarrow> Inl TypeError)"

definition as_float :: "json \<Rightarrow> error + real" where
  "as_float j = (case j of JNum r \<Rightarrow> Inr r | _ \<Rightarrow> Inl TypeError)"


section \<open>Datasets of the \<^verbatim>\<open>data\<close> module\<close>

text \<open>
  The module \<^verbatim>\<open>data\<close> is not part of the sources; its tables are parameters. A row is
  a record with the fields that \<^verbatim>\<open>emp_priors.py\<close> reads from it; the prefix of a
  field name tells the table.
\<close>

record retention_row =
  ret_Name :: string
  ret_Year :: int
  ret_Retention_Rate :: real
  ret_Follow_up_Time :: real

record admin_row =
  adm_Country :: string
  adm_Year :: int
  adm_Program_LLINs :: real

record flow_row =
  flow_Country :: string
  flow_Year :: int
  flow_mean_survey_date :: real
  flow_Total_LLINs :: real
  flow_Total_st :: real

record population_row =
  pop_Country :: string
  pop_Year :: int
  pop_Pop :: real

record stock_row =
  stk_Country :: string
  stk_Survey_Year2 :: int
  stk_SvyIndex_LLINstotal :: real
  stk_SvyIndex_st :: real

record coverage_row =
  cvg_Country :: string
  cvg_Survey_Year2 :: int
  cvg_Per_0LLINs :: real
  cvg_LLINs0_SE :: real


section \<open>Model nodes and the sampler\<close>

text \<open>
  A call \<^verbatim>\<open>normal_like(x, mu, tau)\<close> of pymc: the log-density at \<open>x\<close> of the normal
  distribution with mean \<open>mu\<close> and precision \<open>tau\<close>. The third argument is a precision
  throughout the module: \<^verbatim>\<open>cov_and_zif_fac\<close> passes \<^verbatim>\<open>tau=d['se']**-2\<close>, and
  \<^verbatim>\<open>admin_err_and_bias\<close> passes the inverse of a sum of variances.
\<close>

datatype likelihood = normal_like (like_value: real) (like_mu: real) (like_tau: real)

definition variance :: "likelihood \<Rightarrow> real" where
  "variance l = 1 / like_tau l"

datatype node =
    Beta string real real
  | InverseGamma string real real
  | Normal string real real
  | retention_obs string real real
  | admin_obs "real option" "real option" real
  | cov_obs real node real

text \<open>
  \<open>Beta name alpha beta\<close>, \<open>InverseGamma name alpha beta\<close> and \<open>Normal name mu tau\<close>
  are pymc's stochastics. \<open>retention_obs name value T_i\<close>, \<open>admin_obs value log_truth log_v\<close>
  and \<open>cov_obs value stock tau\<close> are the three observed stochastics \<^verbatim>\<open>obs\<close>, with the
  default arguments that the decorated function binds when it is defined. Their
  log-probability functions follow.
\<close>

definition retention_logp :: "real \<Rightarrow> real \<Rightarrow> real \<Rightarrow> real \<Rightarrow> error + likelihood" where
  \<comment> \<open>\<^verbatim>\<open>normal_like(value, (1. - pi) ** T_i, 1. / sigma**2)\<close>\<close>
  "retention_logp val T_i p sigma =
     bind (pypow (1 - p) T_i) (\<lambda>m.
     bind (pydiv 1 (sigma\<^sup>2)) (\<lambda>t.
     Inr (normal_like val m t)))"

definition admin_logp :: "real \<Rightarrow> real \<Rightarrow> real \<Rightarrow> real \<Rightarrow> real \<Rightarrow> error + likelihood" where
  \<comment> \<open>\<^verbatim>\<open>normal_like(value, log_truth + eps, 1. / (log_v + sigma**2))\<close>\<close>
  "admin_logp val log_truth log_v eps sigma =
     bind (pydiv 1 (log_v + sigma\<^sup>2)) (\<lambda>t.
     Inr (normal_like val (log_truth + eps) t))"

definition cov_logp :: "real \<Rightarrow> real \<Rightarrow> real \<Rightarrow> real \<Rightarrow> real \<Rightarrow> likelihood" where
  \<comment> \<open>\<^verbatim>\<open>normal_like(value, z + (1-z) * exp(-e * stock), tau)\<close>\<close>
  "cov_logp val stock tau e z = normal_like val (z + (1 - z) * exp (- e * stock)) tau"

datatype var = N node | L "node list"

type_synonym trace_stats = "node \<Rightarrow> (real \<times> real) option"

type_synonym sample_call = "var list \<times> nat \<times> nat \<times> nat"

datatype printed = Print_mean_std real real | Print_dict json


section \<open>Environment and state\<close>

text \<open>
  \<open>env\<close> holds what the module takes from outside and never changes:
  \<^verbatim>\<open>settings.PATH\<close>, the tables of \<^verbatim>\<open>data\<close>, simplejson's \<^verbatim>\<open>load\<close> and
  \<^verbatim>\<open>dump\<close>, optparse's \<^verbatim>\<open>parse_args\<close>, the names bound by the two star imports,
  and the sampler. \<open>mcmc env k vars iter burn thin\<close> is the outcome of the \<open>k\<close>-th
  construction \<^verbatim>\<open>MCMC(vars, verbose=1)\<close> followed by
  \<^verbatim>\<open>sample(iter, burn, thin)\<close>: a fault of pymc, or the pair (mean, standard
  deviation) that \<^verbatim>\<open>stats()\<close> reports for each node.

  \<open>world\<close> is the mutable state: the files by path, the existing directories (written
  with a trailing separator), the log of sampler invocations and the standard output.
\<close>

record env =
  PATH :: string
  retention :: "retention_row list"
  admin_llin :: "admin_row list"
  hh_llin_flow :: "flow_row list"
  population :: "population_row list"
  hh_llin_stock :: "stock_row list"
  llin_coverage :: "coverage_row list"
  json_load :: "string \<Rightarrow> error + json"
  json_dump :: "json \<Rightarrow> string"
  parse_args :: "string list \<Rightarrow> error + string list"
  star_names :: "string list"
  mcmc :: "nat \<Rightarrow> var list \<Rightarrow> nat \<Rightarrow> nat \<Rightarrow> nat \<Rightarrow> error + trace_stats"

record world =
  files :: "string \<Rightarrow> string option"
  dirs :: "string set"
  samples :: "sample_call list"
  stdout :: "printed list"

definition with_sep :: "string \<Rightarrow> string" where
  "with_sep d = (if d \<noteq> [] \<and> last d = CHR ''/'' then d else d @ ''/'')"

definition in_listdir :: "world \<Rightarrow> string \<Rightarrow> string \<Rightarrow> error + bool" where
  \<comment> \<open>\<^verbatim>\<open>n in os.listdir(d)\<close>\<close>
  "in_listdir w d n =
     (if with_sep d \<in> dirs w
      then Inr (n \<noteq> [] \<and> CHR ''/'' \<notin> set n \<and> files w (with_sep d @ n) \<noteq> None)
      else Inl OSError)"

definition dirname :: "string \<Rightarrow> string" where
  \<comment> \<open>the path up to and including its last separator\<close>
  "dirname p = rev (dropWhile (\<lambda>c. c \<noteq> CHR ''/'') (rev p))"

definition load_file :: "env \<Rightarrow> world \<Rightarrow> string \<Rightarrow> error + json" where
  \<comment> \<open>\<^verbatim>\<open>f = open(p); return json.load(f)\<close>\<close>
  "load_file en w p = (case files w p of None \<Rightarrow> Inl IOError | Some c \<Rightarrow> json_load en c)"

definition dump_file :: "env \<Rightarrow> world \<Rightarrow> string \<Rightarrow> json \<Rightarrow> (error + json) \<times> world" where
  \<comment> \<open>\<^verbatim>\<open>f = open(p, 'w'); json.dump(j, f); return j\<close>\<close>
  "dump_file en w p j =
     (if dirname p = [] \<or> dirname p \<in> dirs w
      then (Inr j, w\<lparr>files := (files w)(p \<mapsto> json_dump en j)\<rparr>)
      else (Inl IOError, w))"

definition sample :: "env \<Rightarrow> world \<Rightarrow> var list \<Rightarrow> (error + trace_stats) \<times> world" where
  \<comment> \<open>\<^verbatim>\<open>mc = MCMC(vars, verbose=1); iter = 10000; thin = 20; burn = 20000;
      mc.sample(iter*thin+burn, burn, thin)\<close>\<close>
  "sample en w vars =
     (let iter = 10000; thin = 20; burn = 20000
      in (mcmc en (length (samples w)) vars (iter * thin + burn) burn thin,
          w\<lparr>samples := samples w @ [(vars, iter * thin + burn, burn, thin)]\<rparr>))"

definition stats :: "trace_stats \<Rightarrow> node \<Rightarrow> error + real \<times> real" where
  \<comment> \<open>\<^verbatim>\<open>nd.stats()\<close> read at \<^verbatim>\<open>'mean'\<close> and \<^verbatim>\<open>'standard deviation'\<close>; pymc
      returns \<^verbatim>\<open>None\<close> for a node it has no statistics of\<close>
  "stats st nd = (case st nd of None \<Rightarrow> Inl TypeError | Some ms \<Rightarrow> Inr ms)"


section \<open>\<^verbatim>\<open>llin_discard_rate\<close>\<close>

definition moment_alpha :: "real \<Rightarrow> real \<Rightarrow> real" where
  "moment_alpha x v = x * (x * (1 - x) / v - 1)"

definition moment_beta :: "real \<Rightarrow> real \<Rightarrow> real" where
  "moment_beta x v = (1 - x) * (x * (1 - x) / v - 1)"

definition reten_prior_dict :: "real \<Rightarrow> real \<Rightarrow> error + json" where
  \<comment> \<open>\<^verbatim>\<open>dict(alpha=x*(x*(1-x)/v-1), beta=(1-x)*(x*(1-x)/v-1))\<close> on the
      \<^verbatim>\<open>numpy.float64\<close> statistics \<open>x\<close> and \<open>v\<close>: no operation raises\<close>
  "reten_prior_dict x v =
     Inr (JObj [(''alpha'', json_float (np_mul x (np_sub (np_div (x * (1 - x)) v) 1))),
                (''beta'', json_float (np_mul (1 - x) (np_sub (np_div (x * (1 - x)) v) 1)))])"

definition retention_node :: "retention_row \<Rightarrow> node" where
  "retention_node d =
     retention_obs (''retention_'' @ ret_Name d @ ''_'' @ str_int (ret_Year d))
       (ret_Retention_Rate d) (ret_Follow_up_Time d)"

definition retention_vars :: "node \<Rightarrow> node \<Rightarrow> retention_row list \<Rightarrow> var list" where
  \<comment> \<open>the loop appends the one list object \<^verbatim>\<open>retention_obs\<close> to \<^verbatim>\<open>vars\<close> once per
      record; when the sampler is built, every occurrence holds all the nodes\<close>
  "retention_vars p sigma ds =
     [N p, N sigma] @ replicate (length ds) (L (map retention_node ds))"

definition llin_discard_rate :: "env \<Rightarrow> bool \<Rightarrow> world \<Rightarrow> (error + json) \<times> world" where
  "llin_discard_rate en recompute w =
     (let fname = ''emp_prior_reten.json'' in
      case in_listdir w (PATH en) fname of
        Inl e \<Rightarrow> (Inl e, w)
      | Inr present \<Rightarrow>
          if present \<and> \<not> recompute then (load_file en w (PATH en @ fname), w)
          else
            let p = Beta ''Pr[net is lost]'' 1 2;
                sigma = InverseGamma ''standard error'' 11 1;
                vars = retention_vars p sigma (retention en);
                (r, w1) = sample en w vars
            in case r of
                 Inl e \<Rightarrow> (Inl e, w1)
               | Inr st \<Rightarrow>
                   (case stats st p of
                      Inl e \<Rightarrow> (Inl e, w1)
                    | Inr (x, sd) \<Rightarrow>
                        let v = sd\<^sup>2;
                            w2 = w1\<lparr>stdout := stdout w1 @ [Print_mean_std x (sqrt v)]\<rparr>
                        in case reten_prior_dict x v of
                             Inl e \<Rightarrow> (Inl e, w2)
                           | Inr emp_prior_dict \<Rightarrow>
                               dump_file en w2 (PATH en @ fname) emp_prior_dict))"


section \<open>The country-year dictionary\<close>

text \<open>
  \<^verbatim>\<open>data_dict\<close> maps a key (country, year) to a dictionary of named fields. The outer
  dictionary is an association list with distinct keys, in insertion order (Python fixes
  no order; none of the results below depends on it); the inner one is a map from field
  names to floats, whose \<^verbatim>\<open>len\<close> is the number of fields it holds.
\<close>

type_synonym key = "string \<times> int"

type_synonym fields = "string \<Rightarrow> real option"

type_synonym data_dict = "(key \<times> fields) list"

definition len :: "fields \<Rightarrow> nat" where
  "len d = card (dom d)"

definition has_key :: "data_dict \<Rightarrow> key \<Rightarrow> bool" where
  "has_key dd k = (map_of dd k \<noteq> None)"

definition setitem :: "data_dict \<Rightarrow> key \<Rightarrow> fields \<Rightarrow> data_dict" where
  \<comment> \<open>\<^verbatim>\<open>data_dict[key] = d\<close>\<close>
  "setitem dd k d = AList.update k d dd"

definition setfield :: "data_dict \<Rightarrow> key \<Rightarrow> string \<Rightarrow> real \<Rightarrow> error + data_dict" where
  \<comment> \<open>\<^verbatim>\<open>data_dict[key][f] = v\<close>\<close>
  "setfield dd k f v =
     (case map_of dd k of
        None \<Rightarrow> Inl KeyError
      | Some d \<Rightarrow> Inr (AList.update k (d(f \<mapsto> v)) dd))"

definition getf :: "fields \<Rightarrow> string \<Rightarrow> error + real" where
  \<comment> \<open>\<^verbatim>\<open>d[f]\<close>\<close>
  "getf d f = (case d f of None \<Rightarrow> Inl KeyError | Some v \<Rightarrow> Inr v)"

definition getfield :: "data_dict \<Rightarrow> key \<Rightarrow> string \<Rightarrow> error + real" where
  \<comment> \<open>\<^verbatim>\<open>data_dict[key][f]\<close>\<close>
  "getfield dd k f = (case map_of dd k of None \<Rightarrow> Inl KeyError | Some d \<Rightarrow> getf d f)"

definition keep_len :: "nat \<Rightarrow> data_dict \<Rightarrow> data_dict" where
  \<comment> \<open>\<^verbatim>\<open>for key in data_dict.keys(): if len(data_dict[key]) != n: data_dict.pop(key)\<close>\<close>
  "keep_len n dd = filter (\<lambda>(k, d). \<not> len d \<noteq> n) dd"

fun foldM :: "('a \<Rightarrow> 's \<Rightarrow> error + 's) \<Rightarrow> 'a list \<Rightarrow> 's \<Rightarrow> error + 's" where
  "foldM f [] s = Inr s"
| "foldM f (x # xs) s = bind (f x s) (foldM f xs)"

fun mapM :: "('a \<Rightarrow> error + 'b) \<Rightarrow> 'a list \<Rightarrow> error + 'b list" where
  "mapM f [] = Inr []"
| "mapM f (x # xs) = bind (f x) (\<lambda>y. bind (mapM f xs) (\<lambda>ys. Inr (y # ys)))"

definition summary_dict ::
  "string \<Rightarrow> node \<Rightarrow> string \<Rightarrow> node \<Rightarrow> trace_stats \<Rightarrow> error + json" where
  \<comment> \<open>\<^verbatim>\<open>dict(k1=dict(mu=n1.stats()['mean'], tau=n1.stats()['standard deviation']**-2),
      k2=dict(mu=n2.stats()['mean'], tau=n2.stats()['standard deviation']**-2))\<close>\<close>
  "summary_dict k1 n1 k2 n2 st =
     bind (stats st n1) (\<lambda>(mu1, _).
     bind (stats st n1) (\<lambda>(_, sd1).
     bind (stats st n2) (\<lambda>(mu2, _).
     bind (stats st n2) (\<lambda>(_, sd2).
     Inr (JObj [(k1, JObj [(''mu'', JNum mu1), (''tau'', json_float (np_inv_sq sd1))]),
                (k2, JObj [(''mu'', JNum mu2), (''tau'', json_float (np_inv_sq sd2))])])))))"

definition finish :: "env \<Rightarrow> world \<Rightarrow> string \<Rightarrow> error + json \<Rightarrow> (error + json) \<times> world" where
  \<comment> \<open>\<^verbatim>\<open>print emp_prior_dict; f = open(settings.PATH + fname, 'w');
      json.dump(emp_prior_dict, f); return emp_prior_dict\<close>, after the dictionary
      has been built\<close>
  "finish en w fname r =
     (case r of
        Inl e \<Rightarrow> (Inl e, w)
      | Inr emp_prior_dict \<Rightarrow>
          dump_file en (w\<lparr>stdout := stdout w @ [Print_dict emp_prior_dict]\<rparr>)
            (PATH en @ fname) emp_prior_dict)"


section \<open>\<^verbatim>\<open>admin_err_and_bias\<close>\<close>

definition mu_pi_of :: "json \<Rightarrow> error + real" where
  \<comment> \<open>\<^verbatim>\<open>discard_prior['alpha'] / (discard_prior['alpha'] + discard_prior['beta'])\<close>\<close>
  "mu_pi_of discard_prior =
     bind (bind (getitem discard_prior ''alpha'') as_float) (\<lambda>a.
     bind (bind (getitem discard_prior ''alpha'') as_float) (\<lambda>a'.
     bind (bind (getitem discard_prior ''beta'') as_float) (\<lambda>b.
     pydiv a (a' + b))))"

definition store_admin :: "admin_row \<Rightarrow> data_dict \<Rightarrow> error + data_dict" where
  "store_admin d dd =
     (let key = (adm_Country d, adm_Year d);
          dd1 = (if \<not> has_key dd key then setitem dd key Map.empty else dd)
      in setfield dd1 key ''obs'' (adm_Program_LLINs d))"

definition store_flow :: "real \<Rightarrow> flow_row \<Rightarrow> data_dict \<Rightarrow> error + data_dict" where
  "store_flow mu_pi d dd =
     (let key = (flow_Country d, flow_Year d);
          dd1 = (if \<not> has_key dd key then setitem dd key Map.empty else dd)
      in bind (setfield dd1 key ''time''
                 (flow_mean_survey_date d - (real_of_int (flow_Year d) + 0.5))) (\<lambda>dd2.
         bind (getfield dd2 key ''time'') (\<lambda>t.
         bind (pypow (1 - mu_pi) t) (\<lambda>q.
         bind (pydiv (flow_Total_LLINs d) q) (\<lambda>truth.
         bind (setfield dd2 key ''truth'' truth) (\<lambda>dd3.
         setfield dd3 key ''se'' (flow_Total_st d)))))))"

definition admin_data_dict ::
  "real \<Rightarrow> admin_row list \<Rightarrow> flow_row list \<Rightarrow> error + data_dict" where
  "admin_data_dict mu_pi adm flow =
     bind (foldM store_admin adm []) (\<lambda>dd1.
     bind (foldM (store_flow mu_pi) flow dd1) (\<lambda>dd2.
     Inr (keep_len 4 dd2)))"

definition admin_node :: "fields \<Rightarrow> error + node" where
  \<comment> \<open>the default arguments \<^verbatim>\<open>value=log(d['obs'])\<close>, \<^verbatim>\<open>log_truth=log(d['truth'])\<close>,
      \<^verbatim>\<open>log_v=1.1*d['se']**2/d['truth']**2\<close>\<close>
  "admin_node d =
     bind (getf d ''obs'') (\<lambda>obs.
     bind (getf d ''truth'') (\<lambda>truth.
     bind (getf d ''se'') (\<lambda>se.
     bind (getf d ''truth'') (\<lambda>truth'.
     bind (pydiv (1.1 * se\<^sup>2) (truth'\<^sup>2)) (\<lambda>log_v.
     Inr (admin_obs (np_log obs) (np_log truth) log_v))))))"

definition admin_vars :: "node \<Rightarrow> node \<Rightarrow> data_dict \<Rightarrow> error + var list" where
  "admin_vars sigma eps dd =
     bind (mapM admin_node (map snd dd)) (\<lambda>obs. Inr ([N sigma, N eps] @ map N obs))"

definition admin_err_and_bias :: "env \<Rightarrow> bool \<Rightarrow> world \<Rightarrow> (error + json) \<times> world" where
  "admin_err_and_bias en recompute w =
     (let fname = ''emp_prior_admin.json'' in
      case in_listdir w (PATH en) fname of
        Inl e \<Rightarrow> (Inl e, w)
      | Inr present \<Rightarrow>
          if present \<and> \<not> recompute then (load_file en w (PATH en @ fname), w)
          else
            let (r0, w0) = llin_discard_rate en False w;
                sigma = InverseGamma ''error in admin dist data'' 11 1;
                eps = Normal ''bias in admin dist data'' 0 1
            in case bind r0 (\<lambda>discard_prior.
                    bind (mu_pi_of discard_prior) (\<lambda>mu_pi.
                    bind (admin_data_dict mu_pi (admin_llin en) (hh_llin_flow en)) (\<lambda>dd.
                    admin_vars sigma eps dd))) of
                 Inl e \<Rightarrow> (Inl e, w0)
               | Inr vars \<Rightarrow>
                   let (r, w1) = sample en w0 vars
                   in finish en w1 fname (bind r (summary_dict ''sigma'' sigma ''eps'' eps)))"


section \<open>\<^verbatim>\<open>cov_and_zif_fac\<close>\<close>

definition store_population :: "population_row \<Rightarrow> data_dict \<Rightarrow> error + data_dict" where
  "store_population d dd =
     (let key = (pop_Country d, pop_Year d);
          dd1 = setitem dd key Map.empty
      in setfield dd1 key ''pop'' (pop_Pop d * 1000))"

definition store_stock :: "stock_row \<Rightarrow> data_dict \<Rightarrow> error + data_dict" where
  "store_stock d dd =
     (let key = (stk_Country d, stk_Survey_Year2 d)
      in bind (getfield dd key ''pop'') (\<lambda>p.
         bind (pydiv (stk_SvyIndex_LLINstotal d) p) (\<lambda>stock.
         bind (setfield dd key ''stock'' stock) (\<lambda>dd1.
         bind (getfield dd1 key ''pop'') (\<lambda>p'.
         bind (pydiv (stk_SvyIndex_st d) p') (\<lambda>stock_se.
         setfield dd1 key ''stock_se'' stock_se))))))"

definition store_coverage :: "coverage_row \<Rightarrow> data_dict \<Rightarrow> error + data_dict" where
  "store_coverage d dd =
     (let key = (cvg_Country d, cvg_Survey_Year2 d)
      in bind (setfield dd key ''uncovered'' (cvg_Per_0LLINs d)) (\<lambda>dd1.
         setfield dd1 key ''se'' (cvg_LLINs0_SE d)))"

definition cov_data_dict ::
  "population_row list \<Rightarrow> stock_row list \<Rightarrow> coverage_row list \<Rightarrow> error + data_dict" where
  "cov_data_dict pops stocks covs =
     bind (foldM store_population pops []) (\<lambda>dd1.
     bind (foldM store_stock stocks dd1) (\<lambda>dd2.
     bind (foldM store_coverage covs dd2) (\<lambda>dd3.
     Inr (keep_len 5 dd3))))"

definition cov_nodes :: "key \<times> fields \<Rightarrow> error + var list" where
  \<comment> \<open>the body of \<^verbatim>\<open>for k, d in data_dict.items()\<close>: the two nodes added to
      \<^verbatim>\<open>vars\<close>\<close>
  "cov_nodes kd =
     (case kd of (k, d) \<Rightarrow>
        bind (getf d ''stock'') (\<lambda>mu.
        bind (getf d ''stock_se'') (\<lambda>stock_se.
        bind (inv_sq stock_se) (\<lambda>tau.
        let stock = Normal (''stock_'' @ fst k @ ''_'' @ str_int (snd k)) mu tau
        in bind (getf d ''uncovered'') (\<lambda>uncovered.
           bind (getf d ''se'') (\<lambda>se.
           bind (inv_sq se) (\<lambda>tau'.
           Inr [N stock, N (cov_obs uncovered stock tau')])))))))"

definition cov_vars :: "node \<Rightarrow> node \<Rightarrow> data_dict \<Rightarrow> error + var list" where
  "cov_vars e z dd =
     bind (mapM cov_nodes dd) (\<lambda>vss. Inr ([N e, N z] @ concat vss))"

definition cov_and_zif_fac :: "env \<Rightarrow> bool \<Rightarrow> world \<Rightarrow> (error + json) \<times> world" where
  "cov_and_zif_fac en recompute w =
     (let fname = ''emp_prior_cov.json'' in
      case in_listdir w (PATH en) fname of
        Inl e \<Rightarrow> (Inl e, w)
      | Inr present \<Rightarrow>
          if present \<and> \<not> recompute then (load_file en w (PATH en @ fname), w)
          else
            let e = Normal ''coverage factor'' 5 3;
                z = Beta ''zero inflation factor'' 1 10
            in case bind (cov_data_dict (population en) (hh_llin_stock en) (llin_coverage en))
                      (cov_vars e z) of
                 Inl err \<Rightarrow> (Inl err, w)
               | Inr vars \<Rightarrow>
                   let (r, w1) = sample en w vars
                   in finish en w1 fname (bind r (summary_dict ''eta'' e ''zeta'' z)))"


section \<open>The command-line entry point\<close>

definition main :: "env \<Rightarrow> string list \<Rightarrow> world \<Rightarrow> (error + unit) \<times> world" where
  \<comment> \<open>the block under \<^verbatim>\<open>if __name__ == '__main__'\<close>, run with the command-line
      arguments \<open>argv\<close>. The name \<^verbatim>\<open>optparse\<close> is looked up among the names that the
      module binds: it has no \<^verbatim>\<open>import optparse\<close>, so only a star import can bind it\<close>
  "main en argv w =
     (if ''optparse'' \<notin> set (star_names en) then (Inl NameError, w)
      else case parse_args en argv of
        Inl e \<Rightarrow> (Inl e, w)
      | Inr args \<Rightarrow>
          if length args \<noteq> 0 then (Inl (SystemExit 2), w)
          else
            let (r1, w1) = llin_discard_rate en True w
            in case r1 of
                 Inl e \<Rightarrow> (Inl e, w1)
               | Inr _ \<Rightarrow>
                   let (r2, w2) = admin_err_and_bias en True w1
                   in case r2 of
                        Inl e \<Rightarrow> (Inl e, w2)
                      | Inr _ \<Rightarrow>
                          let (r3, w3) = cov_and_zif_fac en True w2
                          in case r3 of
                               Inl e \<Rightarrow> (Inl e, w3)
                             | Inr _ \<Rightarrow> (Inr (), w3))"


section \<open>The three estimators together\<close>

datatype estimator = Reten | Admin | Cov

fun fname_of :: "estimator \<Rightarrow> string" where
  "fname_of Reten = ''emp_prior_reten.json''"
| "fname_of Admin = ''emp_prior_admin.json''"
| "fname_of Cov = ''emp_prior_cov.json''"

fun run :: "estimator \<Rightarrow> env \<Rightarrow> bool \<Rightarrow> world \<Rightarrow> (error + json) \<times> world" where
  "run Reten = llin_discard_rate"
| "run Admin = admin_err_and_bias"
| "run Cov = cov_and_zif_fac"


section \<open>Keys and invariants of the joins\<close>

text \<open>
  The key of a row, as the loops build it, and what holds of \<^verbatim>\<open>data_dict\<close> after the
  rows of a set \<open>A\<close> of administrative records and a set \<open>F\<close> of household records
  (for \<^verbatim>\<open>cov_and_zif_fac\<close>: of the sets \<open>P\<close>, \<open>S\<close> and \<open>C\<close> of population, stock and
  coverage records) have been stored.
\<close>

definition entry :: "data_dict \<Rightarrow> key \<Rightarrow> fields" where
  "entry dd k = (case map_of dd k of None \<Rightarrow> Map.empty | Some d \<Rightarrow> d)"

definition adm_key :: "admin_row \<Rightarrow> key" where
  "adm_key d = (adm_Country d, adm_Year d)"

definition flow_key :: "flow_row \<Rightarrow> key" where
  "flow_key d = (flow_Country d, flow_Year d)"

definition flow_time :: "flow_row \<Rightarrow> real" where
  "flow_time d = flow_mean_survey_date d - (real_of_int (flow_Year d) + 0.5)"

definition flow_ok :: "real \<Rightarrow> flow_row \<Rightarrow> fields \<Rightarrow> bool" where
  "flow_ok mu_pi h d \<longleftrightarrow>
     (\<exists>q. pypow (1 - mu_pi) (flow_time h) = Inr q \<and> q \<noteq> 0
        \<and> d ''time'' = Some (flow_time h)
        \<and> d ''truth'' = Some (flow_Total_LLINs h / q)
        \<and> d ''se'' = Some (flow_Total_st h))"

definition flow_inv :: "real \<Rightarrow> admin_row set \<Rightarrow> flow_row set \<Rightarrow> data_dict \<Rightarrow> bool" where
  "flow_inv mu_pi A F dd \<longleftrightarrow>
     distinct (map fst dd)
     \<and> (\<forall>k. (map_of dd k = None) = (k \<notin> adm_key ` A \<and> k \<notin> flow_key ` F))
     \<and> (\<forall>k d. map_of dd k = Some d \<longrightarrow>
           (if k \<in> adm_key ` A
            then \<exists>a\<in>A. adm_key a = k \<and> d ''obs'' = Some (adm_Program_LLINs a)
            else d ''obs'' = None)
         \<and> (if k \<in> flow_key ` F
            then \<exists>h\<in>F. flow_key h = k \<and> flow_ok mu_pi h d
            else d ''time'' = None \<and> d ''truth'' = None \<and> d ''se'' = None)
         \<and> dom d \<subseteq> {''obs'', ''time'', ''truth'', ''se''})"

definition pop_key :: "population_row \<Rightarrow> key" where
  "pop_key d = (pop_Country d, pop_Year d)"

definition stk_key :: "stock_row \<Rightarrow> key" where
  "stk_key d = (stk_Country d, stk_Survey_Year2 d)"

definition cvg_key :: "coverage_row \<Rightarrow> key" where
  "cvg_key d = (cvg_Country d, cvg_Survey_Year2 d)"

definition stock_ok :: "stock_row \<Rightarrow> fields \<Rightarrow> bool" where
  "stock_ok s d \<longleftrightarrow>
     (\<exists>pv. d ''pop'' = Some pv \<and> pv \<noteq> 0
        \<and> d ''stock'' = Some (stk_SvyIndex_LLINstotal s / pv)
        \<and> d ''stock_se'' = Some (stk_SvyIndex_st s / pv))"

definition cov_inv ::
  "population_row set \<Rightarrow> stock_row set \<Rightarrow> coverage_row set \<Rightarrow> data_dict \<Rightarrow> bool" where
  "cov_inv P S C dd \<longleftrightarrow>
     distinct (map fst dd)
     \<and> (\<forall>k. (map_of dd k = None) = (k \<notin> pop_key ` P))
     \<and> (\<forall>k d. map_of dd k = Some d \<longrightarrow>
           (\<exists>p\<in>P. pop_key p = k \<and> d ''pop'' = Some (pop_Pop p * 1000))
         \<and> (if k \<in> stk_key ` S
            then \<exists>s\<in>S. stk_key s = k \<and> stock_ok s d
            else d ''stock'' = None \<and> d ''stock_se'' = None)
         \<and> (if k \<in> cvg_key ` C
            then \<exists>c\<in>C. cvg_key c = k \<and> d ''uncovered'' = Some (cvg_Per_0LLINs c)
                   \<and> d ''se'' = Some (cvg_LLINs0_SE c)
            else d ''uncovered'' = None \<and> d ''se'' = None)
         \<and> dom d \<subseteq> {''pop'', ''stock'', ''stock_se'', ''uncovered'', ''se''})"


section \<open>Moments of the Beta distribution\<close>

text \<open>
  The mean and the variance of \<open>Beta(a, b)\<close>, as the claim about the round trip names
  them; the module itself only holds the inverse direction, \<open>reten_prior_dict\<close>.
\<close>

definition beta_mean :: "real \<Rightarrow> real \<Rightarrow> real" where
  "beta_mean a b = a / (a + b)"

definition beta_variance :: "real \<Rightarrow> real \<Rightarrow> real" where
  "beta_variance a b = a * b / ((a + b)\<^sup>2 * (a + b + 1))"


section \<open>A concrete scenario\<close>

text \<open>
  A cache directory \<^verbatim>\<open>cache/\<close>, one matching pair of administrative and household
  records, no retention records, and a sampler that reports mean \<open>1/2\<close> and standard
  deviation \<open>1/4\<close> for every node. \<open>ex_world\<close> has an empty cache directory;
  \<open>ex_cached\<close> holds a cache file of \<^verbatim>\<open>llin_discard_rate\<close>. The further rows
  are an administrative record without a household record, a stock record, two
  population records, a coverage record and a retention record.
\<close>

definition ex_env :: env where
  "ex_env =
     \<lparr>PATH = ''cache/'',
      retention = [],
      admin_llin = [\<lparr>adm_Country = ''X'', adm_Year = 2005, adm_Program_LLINs = 1000\<rparr>],
      hh_llin_flow = [\<lparr>flow_Country = ''X'', flow_Year = 2005, flow_mean_survey_date = 2005.5,
                       flow_Total_LLINs = 1200, flow_Total_st = 50\<rparr>],
      population = [],
      hh_llin_stock = [],
      llin_coverage = [],
      json_load = (\<lambda>c. if c = ''three halves''
                         then Inr (JObj [(''alpha'', JNum (3 / 2)), (''beta'', JNum (3 / 2))])
                         else Inl JSONDecodeError),
      json_dump = (\<lambda>j. if j = JObj [(''alpha'', JNum (3 / 2)), (''beta'', JNum (3 / 2))]
                         then ''three halves'' else ''other''),
      parse_args = Inr,
      star_names = [''log'', ''exp'', ''Beta'', ''InverseGamma'', ''Normal'', ''MCMC'',
                    ''observed'', ''stochastic'', ''normal_like''],
      mcmc = (\<lambda>k vars iter burn thin. Inr (\<lambda>nd. Some (1 / 2, 1 / 4)))\<rparr>"

definition ex_world :: world where
  "ex_world = \<lparr>files = Map.empty, dirs = {''cache/''}, samples = [], stdout = []\<rparr>"

definition ex_cached :: world where
  "ex_cached = ex_world\<lparr>files := [''cache/emp_prior_reten.json'' \<mapsto> ''three halves'']\<rparr>"


definition ex_admin_only :: admin_row where
  "ex_admin_only = \<lparr>adm_Country = ''Y'', adm_Year = 2006, adm_Program_LLINs = 500\<rparr>"

definition ex_stock :: stock_row where
  "ex_stock = \<lparr>stk_Country = ''X'', stk_Survey_Year2 = 2005,
                stk_SvyIndex_LLINstotal = 1200, stk_SvyIndex_st = 50\<rparr>"

definition ex_populations :: "population_row list" where
  "ex_populations =
     [\<lparr>pop_Country = ''X'', pop_Year = 2005, pop_Pop = 1.2\<rparr>,
      \<lparr>pop_Country = ''Y'', pop_Year = 2006, pop_Pop = 3\<rparr>]"

definition ex_coverage :: coverage_row where
  "ex_coverage = \<lparr>cvg_Country = ''X'', cvg_Survey_Year2 = 2005,
                   cvg_Per_0LLINs = 1 / 4, cvg_LLINs0_SE = 1 / 10\<rparr>"

definition ex_retention :: retention_row where
  "ex_retention = \<lparr>ret_Name = ''A'', ret_Year = 2000, ret_Retention_Rate = 4 / 5,
                     ret_Follow_up_Time = 1\<rparr>"


section \<open>The moment-matching conversion\<close>

lemma reten_prior_dict_nonzero:
  "v \<noteq> 0 \<Longrightarrow>
   reten_prior_dict x v =
     Inr (JObj [(''alpha'', JNum (moment_alpha x v)), (''beta'', JNum (moment_beta x v))])"
  by (simp add: reten_prior_dict_def np_div_def np_sub_def np_mul_def json_float_def
      moment_alpha_def moment_beta_def)

lemma beta_variance_pos: "0 < a \<Longrightarrow> 0 < b \<Longrightarrow> 0 < beta_variance a b"
  by (simp add: beta_variance_def)

lemma beta_ratio:
  assumes "0 < a" "0 < b"
  shows "beta_mean a b * (1 - beta_mean a b) / beta_variance a b = a + b + 1"
proof -
  have s: "a + b \<noteq> 0" "a + b + 1 \<noteq> 0" "a * b \<noteq> 0" using assms by auto
  have "1 - beta_mean a b = b / (a + b)"
    using s by (simp add: beta_mean_def field_simps)
  then have "beta_mean a b * (1 - beta_mean a b) = a * b / (a + b)\<^sup>2"
    by (simp add: beta_mean_def power2_eq_square)
  then have "beta_mean a b * (1 - beta_mean a b) / beta_variance a b
     = (a * b / (a + b)\<^sup>2) / (a * b / ((a + b)\<^sup>2 * (a + b + 1)))"
    by (simp add: beta_variance_def)
  also have "\<dots> = a + b + 1"
    using s by (simp add: field_simps)
  finally show ?thesis .
qed

lemma moment_alpha_beta:
  assumes "0 < a" "0 < b"
  shows "moment_alpha (beta_mean a b) (beta_variance a b) = a"
proof -
  have "moment_alpha (beta_mean a b) (beta_variance a b) = beta_mean a b * (a + b)"
    unfolding moment_alpha_def by (simp add: beta_ratio [OF assms])
  then show ?thesis using assms by (simp add: beta_mean_def)
qed

lemma moment_beta_beta:
  assumes "0 < a" "0 < b"
  shows "moment_beta (beta_mean a b) (beta_variance a b) = b"
proof -
  have s: "a + b \<noteq> 0" using assms by auto
  have "moment_beta (beta_mean a b) (beta_variance a b) = (1 - beta_mean a b) * (a + b)"
    unfolding moment_beta_def by (simp add: beta_ratio [OF assms])
  also have "1 - beta_mean a b = b / (a + b)"
    using s by (simp add: beta_mean_def field_simps)
  finally show ?thesis using s by simp
qed

text \<open>
  C5. For \<open>alpha > 0\<close> and \<open>beta > 0\<close>, the conversion of \<^verbatim>\<open>llin_discard_rate\<close>
  applied to the mean and the variance of \<open>Beta(alpha, beta)\<close> gives back
  \<open>alpha\<close> and \<open>beta\<close>: the formulas \<open>x*(x*(1-x)/v - 1)\<close> and \<open>(1-x)*(x*(1-x)/v - 1)\<close>
  invert the moments, and the dictionary built from them holds the original pair.
\<close>

theorem moment_match_round_trip:
  assumes "0 < a" and "0 < b"
  shows "moment_alpha (beta_mean a b) (beta_variance a b) = a
       \<and> moment_beta (beta_mean a b) (beta_variance a b) = b
       \<and> reten_prior_dict (beta_mean a b) (beta_variance a b)
           = Inr (JObj [(''alpha'', JNum a), (''beta'', JNum b)])"
proof -
  have "beta_variance a b \<noteq> 0"
    using beta_variance_pos [OF assms] by simp
  then show ?thesis
    by (simp add: reten_prior_dict_nonzero moment_alpha_beta [OF assms]
        moment_beta_beta [OF assms])
qed

theorem moment_match_round_trip_witness:
  "moment_alpha (beta_mean 1 2) (beta_variance 1 2) = 1
   \<and> moment_beta (beta_mean 1 2) (beta_variance 1 2) = 2
   \<and> reten_prior_dict (1 / 3) (1 / 18) = Inr (JObj [(''alpha'', JNum 1), (''beta'', JNum 2)])"
proof -
  have m: "beta_mean 1 2 = 1 / 3" by (simp add: beta_mean_def)
  have v: "beta_variance 1 2 = 1 / 18" by (simp add: beta_variance_def power2_eq_square)
  show ?thesis
    using moment_match_round_trip [of 1 2] by (simp add: m v)
qed


section \<open>Files, the sampler and the three procedures\<close>

lemma sample_fst: "fst (sample en w vars) = mcmc en (length (samples w)) vars 220000 20000 20"
  by (simp add: sample_def)

lemma sample_snd:
  "snd (sample en w vars) = w\<lparr>samples := samples w @ [(vars, 220000, 20000, 20)]\<rparr>"
  by (simp add: sample_def)

lemma sample_eq:
  "sample en w vars =
     (mcmc en (length (samples w)) vars 220000 20000 20,
      w\<lparr>samples := samples w @ [(vars, 220000, 20000, 20)]\<rparr>)"
  by (simp add: sample_def)

lemma dump_file_cases:
  "dump_file en w p j = (Inr j, w\<lparr>files := (files w)(p \<mapsto> json_dump en j)\<rparr>)
   \<or> dump_file en w p j = (Inl IOError, w)"
  by (simp add: dump_file_def)

lemma finish_cases:
  "(\<exists>e. finish en w fname r = (Inl e, w))
   \<or> (\<exists>j. finish en w fname r =
         (Inr j, w\<lparr>stdout := stdout w @ [Print_dict j],
                    files := (files w)(PATH en @ fname \<mapsto> json_dump en j)\<rparr>))
   \<or> (\<exists>j. finish en w fname r = (Inl IOError, w\<lparr>stdout := stdout w @ [Print_dict j]\<rparr>))"
  by (cases r) (auto simp: finish_def dump_file_def)

lemma llin_cases:
  assumes "llin_discard_rate en rc w = (r, w')"
  shows "dirs w' = dirs w"
    and "(\<exists>e. r = Inl e) \<longrightarrow> files w' = files w"
    and "files w' = files w \<or> (\<exists>c. files w' = (files w)(PATH en @ ''emp_prior_reten.json'' \<mapsto> c))"
    and "samples w' = samples w
         \<or> samples w' = samples w @ [(retention_vars (Beta ''Pr[net is lost]'' 1 2)
               (InverseGamma ''standard error'' 11 1) (retention en), 220000, 20000, 20)]"
  using assms
  by (auto simp: llin_discard_rate_def Let_def sample_eq dump_file_def load_file_def
      split: sum.splits if_splits prod.splits option.splits)

lemma with_sep_id: "d \<noteq> [] \<Longrightarrow> last d = CHR ''/'' \<Longrightarrow> with_sep d = d"
  by (simp add: with_sep_def)


lemma listed_file:
  assumes "d \<noteq> []" "last d = CHR ''/''" "in_listdir w d n = Inr True"
  shows "\<exists>c. files w (d @ n) = Some c"
  using assms by (auto simp: in_listdir_def with_sep_id split: if_splits)

lemma llin_cached:
  assumes "in_listdir w (PATH en) ''emp_prior_reten.json'' = Inr True"
  shows "llin_discard_rate en False w = (load_file en w (PATH en @ ''emp_prior_reten.json''), w)"
  using assms by (simp add: llin_discard_rate_def)

lemma admin_cached:
  assumes "in_listdir w (PATH en) ''emp_prior_admin.json'' = Inr True"
  shows "admin_err_and_bias en False w = (load_file en w (PATH en @ ''emp_prior_admin.json''), w)"
  using assms by (simp add: admin_err_and_bias_def)

lemma cov_cached:
  assumes "in_listdir w (PATH en) ''emp_prior_cov.json'' = Inr True"
  shows "cov_and_zif_fac en False w = (load_file en w (PATH en @ ''emp_prior_cov.json''), w)"
  using assms by (simp add: cov_and_zif_fac_def)

lemma run_cached:
  assumes "in_listdir w (PATH en) (fname_of p) = Inr True"
  shows "run p en False w = (load_file en w (PATH en @ fname_of p), w)"
  using assms by (cases p) (simp_all add: llin_cached admin_cached cov_cached)

lemma ex_listed: "in_listdir ex_cached (PATH ex_env) (fname_of Reten) = Inr True"
  by (simp add: in_listdir_def ex_cached_def ex_world_def ex_env_def with_sep_def)

text \<open>
  C1, as amended. For each of the three estimators: when \<^verbatim>\<open>settings.PATH\<close> ends with
  the path separator, the cache file of the procedure is listed in the configured
  directory and \<^verbatim>\<open>recompute\<close> is false, the outcome is exactly what \<^verbatim>\<open>json.load\<close>
  gives on the contents of that file, the state is unchanged and the sampler is not
  invoked.
\<close>

theorem cache_hit:
  assumes "PATH en \<noteq> []" and "last (PATH en) = CHR ''/''"
      and "in_listdir w (PATH en) (fname_of p) = Inr True"
  shows "\<exists>c. files w (PATH en @ fname_of p) = Some c
           \<and> run p en False w = (json_load en c, w)
           \<and> samples (snd (run p en False w)) = samples w"
proof -
  obtain c where c: "files w (PATH en @ fname_of p) = Some c"
    using listed_file [OF assms] by blast
  have "run p en False w = (json_load en c, w)"
    using run_cached [OF assms(3)] c by (simp add: load_file_def)
  with c show ?thesis by simp
qed

theorem cache_hit_witness:
  "run Reten ex_env False ex_cached
     = (Inr (JObj [(''alpha'', JNum (3 / 2)), (''beta'', JNum (3 / 2))]), ex_cached)
   \<and> samples (snd (run Reten ex_env False ex_cached)) = []"
proof -
  have p: "PATH ex_env \<noteq> []" "last (PATH ex_env) = CHR ''/''"
    by (simp_all add: ex_env_def)
  have f: "files ex_cached (PATH ex_env @ fname_of Reten) = Some ''three halves''"
    by (simp add: ex_cached_def ex_world_def ex_env_def)
  have l: "json_load ex_env ''three halves''
             = Inr (JObj [(''alpha'', JNum (3 / 2)), (''beta'', JNum (3 / 2))])"
    by (simp add: ex_env_def)
  have s: "samples ex_cached = []" by (simp add: ex_cached_def ex_world_def)
  from cache_hit [OF p ex_listed] f l s show ?thesis by auto
qed

text \<open>
  C1, as stated, fails when \<^verbatim>\<open>settings.PATH\<close> does not end with the separator: the
  procedure lists the directory \<^verbatim>\<open>cache\<close>, finds its cache file there, and then opens
  \<^verbatim>\<open>settings.PATH + fname\<close>, the path \<^verbatim>\<open>cacheemp_prior_reten.json\<close>, which does
  not exist.
\<close>

theorem cache_hit_counterexample:
  "in_listdir ex_cached (PATH (ex_env\<lparr>PATH := ''cache''\<rparr>)) (fname_of Reten) = Inr True
   \<and> run Reten (ex_env\<lparr>PATH := ''cache''\<rparr>) False ex_cached = (Inl IOError, ex_cached)"
  by (simp add: llin_discard_rate_def in_listdir_def with_sep_def load_file_def
      ex_cached_def ex_world_def)

lemma finish_fault: "finish en w fname r = (Inl e, w') \<Longrightarrow> files w' = files w"
  by (cases r) (auto simp: finish_def dump_file_def split: if_splits)

lemma finish_samples: "finish en w fname r = (r', w') \<Longrightarrow> samples w' = samples w"
  by (cases r) (auto simp: finish_def dump_file_def split: if_splits)

lemma finish_files:
  "finish en w fname r = (r', w') \<Longrightarrow>
   files w' = files w \<or> (\<exists>c. files w' = (files w)(PATH en @ fname \<mapsto> c))"
  by (cases r) (auto simp: finish_def dump_file_def split: if_splits)

lemma finish_dirs: "finish en w fname r = (r', w') \<Longrightarrow> dirs w' = dirs w"
  by (cases r) (auto simp: finish_def dump_file_def split: if_splits)

lemma admin_fault:
  assumes "admin_err_and_bias en rc w = (Inl e, w')"
  shows "files w' (PATH en @ ''emp_prior_admin.json'') = files w (PATH en @ ''emp_prior_admin.json'')"
proof -
  obtain r0 w0 where l: "llin_discard_rate en False w = (r0, w0)"
    by (cases "llin_discard_rate en False w")
  have f0: "files w0 (PATH en @ ''emp_prior_admin.json'') = files w (PATH en @ ''emp_prior_admin.json'')"
    using llin_cases(3) [OF l] by auto
  show ?thesis
    using assms l f0
    by (auto simp: admin_err_and_bias_def Let_def sample_eq load_file_def
      split: sum.splits if_splits option.splits dest!: finish_fault)
qed

lemma admin_samples:
  assumes "admin_err_and_bias en rc w = (r, w')"
  shows "\<exists>new. samples w' = samples w @ new \<and> list_all (\<lambda>(vars, i, b, t). i = 220000 \<and> b = 20000 \<and> t = 20 \<and> (i - b) div t = 10000) new"
proof -
  obtain r0 w0 where l: "llin_discard_rate en False w = (r0, w0)"
    by (cases "llin_discard_rate en False w")
  have s0: "\<exists>new. samples w0 = samples w @ new \<and> list_all (\<lambda>(vars, i, b, t). i = 220000 \<and> b = 20000 \<and> t = 20 \<and> (i - b) div t = 10000) new"
    using llin_cases(4) [OF l] by auto
  show ?thesis
    using assms l s0
    by (auto simp: admin_err_and_bias_def Let_def sample_eq load_file_def
      split: sum.splits if_splits option.splits dest!: finish_samples)
qed

lemma cov_fault:
  assumes "cov_and_zif_fac en rc w = (Inl e, w')"
  shows "files w' = files w"
  using assms
  by (auto simp: cov_and_zif_fac_def Let_def sample_eq load_file_def
      split: sum.splits if_splits option.splits dest!: finish_fault)

lemma cov_samples:
  assumes "cov_and_zif_fac en rc w = (r, w')"
  shows "\<exists>new. samples w' = samples w @ new \<and> list_all (\<lambda>(vars, i, b, t). i = 220000 \<and> b = 20000 \<and> t = 20 \<and> (i - b) div t = 10000) new"
  using assms
  by (auto simp: cov_and_zif_fac_def Let_def sample_eq load_file_def
      split: sum.splits if_splits option.splits dest!: finish_samples)

lemma llin_samples:
  assumes "llin_discard_rate en rc w = (r, w')"
  shows "\<exists>new. samples w' = samples w @ new \<and> list_all (\<lambda>(vars, i, b, t). i = 220000 \<and> b = 20000 \<and> t = 20 \<and> (i - b) div t = 10000) new"
  using llin_cases(4) [OF assms] by auto

lemma ex_failing_run:
  "run Reten (ex_env\<lparr>mcmc := \<lambda>k vars iter burn thin. Inl SamplerError\<rparr>) True ex_cached
     = (Inl SamplerError,
        ex_cached\<lparr>samples := [([N (Beta ''Pr[net is lost]'' 1 2),
                                  N (InverseGamma ''standard error'' 11 1)], 220000, 20000, 20)]\<rparr>)"
  by (simp add: llin_discard_rate_def in_listdir_def with_sep_def ex_env_def ex_cached_def
      ex_world_def sample_eq retention_vars_def)

text \<open>
  C7. For each of the three estimators: when a run ends in a fault, the cache file of the
  procedure is what it was before the run. Every fault of the model arises before the
  file is opened for writing (in the cache check, the model construction, the sampler or
  the summary) or when that opening itself fails, so no partial result is persisted.
\<close>

theorem fault_keeps_cache:
  assumes "run p en recompute w = (Inl e, w')"
  shows "files w' (PATH en @ fname_of p) = files w (PATH en @ fname_of p)"
proof (cases p)
  case Reten
  with assms llin_cases(2) [of en recompute w "Inl e" w'] show ?thesis by simp
next
  case Admin
  with assms admin_fault [of en recompute w e w'] show ?thesis by simp
next
  case Cov
  with assms cov_fault [of en recompute w e w'] show ?thesis by simp
qed

theorem fault_keeps_cache_witness:
  "fst (run Reten (ex_env\<lparr>mcmc := \<lambda>k vars iter burn thin. Inl SamplerError\<rparr>) True ex_cached)
     = Inl SamplerError
   \<and> files (snd (run Reten (ex_env\<lparr>mcmc := \<lambda>k vars iter burn thin. Inl SamplerError\<rparr>)
                   True ex_cached)) ''cache/emp_prior_reten.json''
     = Some ''three halves''"
  using fault_keeps_cache [OF ex_failing_run]
  unfolding ex_failing_run
  by (simp add: ex_cached_def ex_world_def)

lemma llin_sampled:
  assumes "in_listdir w (PATH en) ''emp_prior_reten.json'' = Inr present"
      and "recompute \<or> \<not> present"
  shows "samples (snd (llin_discard_rate en recompute w))
       = samples w @ [(retention_vars (Beta ''Pr[net is lost]'' 1 2)
                         (InverseGamma ''standard error'' 11 1) (retention en),
                       220000, 20000, 20)]"
  using assms
  by (auto simp: llin_discard_rate_def Let_def sample_eq dump_file_def reten_prior_dict_def
      split: sum.splits option.splits prod.splits)

lemma admin_sampled:
  assumes "in_listdir w (PATH en) ''emp_prior_admin.json'' = Inr present"
      and "recompute \<or> \<not> present"
      and "llin_discard_rate en False w = (Inr j, w0)"
      and "mu_pi_of j = Inr mu_pi"
      and "admin_data_dict mu_pi (admin_llin en) (hh_llin_flow en) = Inr dd"
      and "admin_vars (InverseGamma ''error in admin dist data'' 11 1)
             (Normal ''bias in admin dist data'' 0 1) dd = Inr vars"
  shows "samples (snd (admin_err_and_bias en recompute w)) = samples w0 @ [(vars, 220000, 20000, 20)]"
proof -
  obtain r' w' where f: "finish en (w0\<lparr>samples := samples w0 @ [(vars, 220000, 20000, 20)]\<rparr>)
      ''emp_prior_admin.json''
      (bind (mcmc en (length (samples w0)) vars 220000 20000 20)
         (summary_dict ''sigma'' (InverseGamma ''error in admin dist data'' 11 1)
            ''eps'' (Normal ''bias in admin dist data'' 0 1))) = (r', w')"
    by (cases "finish en (w0\<lparr>samples := samples w0 @ [(vars, 220000, 20000, 20)]\<rparr>)
      ''emp_prior_admin.json''
      (bind (mcmc en (length (samples w0)) vars 220000 20000 20)
         (summary_dict ''sigma'' (InverseGamma ''error in admin dist data'' 11 1)
            ''eps'' (Normal ''bias in admin dist data'' 0 1)))")
  have "admin_err_and_bias en recompute w = (r', w')"
    using assms f by (auto simp: admin_err_and_bias_def Let_def bind_def sample_eq)
  with finish_samples [OF f] show ?thesis by simp
qed

lemma cov_sampled:
  assumes "in_listdir w (PATH en) ''emp_prior_cov.json'' = Inr present"
      and "recompute \<or> \<not> present"
      and "cov_data_dict (population en) (hh_llin_stock en) (llin_coverage en) = Inr dd"
      and "cov_vars (Normal ''coverage factor'' 5 3) (Beta ''zero inflation factor'' 1 10) dd
             = Inr vars"
  shows "samples (snd (cov_and_zif_fac en recompute w)) = samples w @ [(vars, 220000, 20000, 20)]"
proof -
  obtain r' w' where f: "finish en (w\<lparr>samples := samples w @ [(vars, 220000, 20000, 20)]\<rparr>)
      ''emp_prior_cov.json''
      (bind (mcmc en (length (samples w)) vars 220000 20000 20)
         (summary_dict ''eta'' (Normal ''coverage factor'' 5 3)
            ''zeta'' (Beta ''zero inflation factor'' 1 10))) = (r', w')"
    by (cases "finish en (w\<lparr>samples := samples w @ [(vars, 220000, 20000, 20)]\<rparr>)
      ''emp_prior_cov.json''
      (bind (mcmc en (length (samples w)) vars 220000 20000 20)
         (summary_dict ''eta'' (Normal ''coverage factor'' 5 3)
            ''zeta'' (Beta ''zero inflation factor'' 1 10)))")
  have "cov_and_zif_fac en recompute w = (r', w')"
    using assms f by (auto simp: cov_and_zif_fac_def Let_def bind_def sample_eq)
  with finish_samples [OF f] show ?thesis by simp
qed

lemma run_samples:
  "\<exists>new. samples (snd (run p en recompute w)) = samples w @ new
        \<and> list_all (\<lambda>(vars, i, b, t). i = 220000 \<and> b = 20000 \<and> t = 20 \<and> (i - b) div t = 10000) new"
proof (cases p)
  case Reten
  then show ?thesis
    using llin_samples [of en recompute w "fst (llin_discard_rate en recompute w)"
        "snd (llin_discard_rate en recompute w)"]
    by simp
next
  case Admin
  then show ?thesis
    using admin_samples [of en recompute w "fst (admin_err_and_bias en recompute w)"
        "snd (admin_err_and_bias en recompute w)"]
    by simp
next
  case Cov
  then show ?thesis
    using cov_samples [of en recompute w "fst (cov_and_zif_fac en recompute w)"
        "snd (cov_and_zif_fac en recompute w)"]
    by simp
qed

text \<open>
  C8. Each of the three estimators, once it is past its cache check (the cache file is
  absent or \<^verbatim>\<open>recompute\<close> is true) and has built its model, invokes the sampler on that
  model for 220000 steps in total, with a burn-in of 20000 and thinning by 20, which
  retains 10000 draws. Whatever the argument \<^verbatim>\<open>recompute\<close> and the state, no run
  adds an invocation with other constants: the only parameter of the public functions
  is \<^verbatim>\<open>recompute\<close>, so the constants cannot be configured.
\<close>

theorem sampler_constants:
  "(\<exists>new. samples (snd (run p en recompute w)) = samples w @ new
        \<and> list_all (\<lambda>(vars, i, b, t). i = 220000 \<and> b = 20000 \<and> t = 20 \<and> (i - b) div t = 10000) new)
   \<and> (in_listdir w (PATH en) ''emp_prior_reten.json'' = Inr present1
        \<and> (recompute \<or> \<not> present1)
      \<longrightarrow> samples (snd (llin_discard_rate en recompute w))
            = samples w @ [(retention_vars (Beta ''Pr[net is lost]'' 1 2)
                              (InverseGamma ''standard error'' 11 1) (retention en),
                            10000 * 20 + 20000, 20000, 20)])
   \<and> (in_listdir w (PATH en) ''emp_prior_admin.json'' = Inr present2
        \<and> (recompute \<or> \<not> present2)
        \<and> llin_discard_rate en False w = (Inr discard_prior, w0)
        \<and> mu_pi_of discard_prior = Inr mu_pi
        \<and> admin_data_dict mu_pi (admin_llin en) (hh_llin_flow en) = Inr dd2
        \<and> admin_vars (InverseGamma ''error in admin dist data'' 11 1)
              (Normal ''bias in admin dist data'' 0 1) dd2 = Inr vars2
      \<longrightarrow> samples (snd (admin_err_and_bias en recompute w))
            = samples w0 @ [(vars2, 10000 * 20 + 20000, 20000, 20)])
   \<and> (in_listdir w (PATH en) ''emp_prior_cov.json'' = Inr present3
        \<and> (recompute \<or> \<not> present3)
        \<and> cov_data_dict (population en) (hh_llin_stock en) (llin_coverage en) = Inr dd3
        \<and> cov_vars (Normal ''coverage factor'' 5 3) (Beta ''zero inflation factor'' 1 10) dd3
              = Inr vars3
      \<longrightarrow> samples (snd (cov_and_zif_fac en recompute w))
            = samples w @ [(vars3, 10000 * 20 + 20000, 20000, 20)])"
proof (intro conjI impI)
  show "\<exists>new. samples (snd (run p en recompute w)) = samples w @ new
        \<and> list_all (\<lambda>(vars, i, b, t). i = 220000 \<and> b = 20000 \<and> t = 20 \<and> (i - b) div t = 10000) new"
    by (rule run_samples)
next
  assume "in_listdir w (PATH en) ''emp_prior_reten.json'' = Inr present1
        \<and> (recompute \<or> \<not> present1)"
  then show "samples (snd (llin_discard_rate en recompute w))
            = samples w @ [(retention_vars (Beta ''Pr[net is lost]'' 1 2)
                              (InverseGamma ''standard error'' 11 1) (retention en),
                            10000 * 20 + 20000, 20000, 20)]"
    using llin_sampled [of w en present1 recompute] by simp
next
  assume "in_listdir w (PATH en) ''emp_prior_admin.json'' = Inr present2
        \<and> (recompute \<or> \<not> present2)
        \<and> llin_discard_rate en False w = (Inr discard_prior, w0)
        \<and> mu_pi_of discard_prior = Inr mu_pi
        \<and> admin_data_dict mu_pi (admin_llin en) (hh_llin_flow en) = Inr dd2
        \<and> admin_vars (InverseGamma ''error in admin dist data'' 11 1)
              (Normal ''bias in admin dist data'' 0 1) dd2 = Inr vars2"
  then show "samples (snd (admin_err_and_bias en recompute w))
            = samples w0 @ [(vars2, 10000 * 20 + 20000, 20000, 20)]"
    using admin_sampled [of w en present2 recompute discard_prior w0 mu_pi dd2 vars2] by simp
next
  assume "in_listdir w (PATH en) ''emp_prior_cov.json'' = Inr present3
        \<and> (recompute \<or> \<not> present3)
        \<and> cov_data_dict (population en) (hh_llin_stock en) (llin_coverage en) = Inr dd3
        \<and> cov_vars (Normal ''coverage factor'' 5 3) (Beta ''zero inflation factor'' 1 10) dd3
              = Inr vars3"
  then show "samples (snd (cov_and_zif_fac en recompute w))
            = samples w @ [(vars3, 10000 * 20 + 20000, 20000, 20)]"
    using cov_sampled [of w en present3 recompute dd3 vars3] by simp
qed








section \<open>The retention likelihood\<close>

lemma pypow_pos: "0 < b \<Longrightarrow> pypow b e = Inr (b powr e)"
  by (simp add: pypow_def)

text \<open>
  C2, as amended. For every retention record, the model given to the sampler holds an
  observed node with the record's retention rate as value and its follow-up time as
  \<open>T\<close>; for \<open>pi < 1\<close> and \<open>sigma \<noteq> 0\<close> its likelihood is the normal one around
  \<open>(1 - pi)\<^sup>T\<close> with precision \<open>1/sigma\<^sup>2\<close>, that is with variance \<open>sigma\<^sup>2\<close>.
\<close>

theorem retention_likelihood:
  assumes "d \<in> set ds" and "p < 1" and "sigma \<noteq> 0"
  shows "L (map retention_node ds) \<in> set (retention_vars pr sg ds)
       \<and> retention_obs (''retention_'' @ ret_Name d @ ''_'' @ str_int (ret_Year d))
            (ret_Retention_Rate d) (ret_Follow_up_Time d) \<in> set (map retention_node ds)
       \<and> retention_logp (ret_Retention_Rate d) (ret_Follow_up_Time d) p sigma
           = Inr (normal_like (ret_Retention_Rate d) ((1 - p) powr ret_Follow_up_Time d)
                    (1 / sigma\<^sup>2))
       \<and> variance (normal_like (ret_Retention_Rate d) ((1 - p) powr ret_Follow_up_Time d)
                    (1 / sigma\<^sup>2)) = sigma\<^sup>2"
proof -
  have "ds \<noteq> []" using assms(1) by auto
  then have 1: "L (map retention_node ds) \<in> set (retention_vars pr sg ds)"
    by (simp add: retention_vars_def)
  have 2: "retention_obs (''retention_'' @ ret_Name d @ ''_'' @ str_int (ret_Year d))
            (ret_Retention_Rate d) (ret_Follow_up_Time d) \<in> set (map retention_node ds)"
    using assms(1) by (auto simp: retention_node_def)
  have 3: "retention_logp (ret_Retention_Rate d) (ret_Follow_up_Time d) p sigma
           = Inr (normal_like (ret_Retention_Rate d) ((1 - p) powr ret_Follow_up_Time d)
                    (1 / sigma\<^sup>2))"
    using assms(2,3) by (simp add: retention_logp_def pypow_pos pydiv_def bind_def)
  have 4: "variance (normal_like (ret_Retention_Rate d) ((1 - p) powr ret_Follow_up_Time d)
                    (1 / sigma\<^sup>2)) = sigma\<^sup>2"
    by (simp add: variance_def)
  from 1 2 3 4 show ?thesis by (intro conjI)
qed

theorem retention_likelihood_witness:
  "retention_logp (4 / 5) 1 (1 / 2) 2 = Inr (normal_like (4 / 5) (1 / 2) (1 / 4))
   \<and> variance (normal_like (4 / 5) (1 / 2) (1 / 4)) = 4
   \<and> retention_obs ''retention_A_2000'' (4 / 5) 1 \<in> set (map retention_node [ex_retention])"
proof -
  have s: "str_int 2000 = ''2000''" by code_simp
  have "ex_retention \<in> set [ex_retention]" "(1 / 2 :: real) < 1" "(2 :: real) \<noteq> 0" by simp_all
  from retention_likelihood [OF this,
      of "Beta ''Pr[net is lost]'' 1 2" "InverseGamma ''standard error'' 11 1"]
  show ?thesis
    by (simp add: ex_retention_def s)
qed

text \<open>
  C2, as stated with variance \<open>1/sigma\<^sup>2\<close>, fails: at \<open>sigma = 2\<close> the third
  argument of \<^verbatim>\<open>normal_like\<close> is the precision \<open>1/4\<close>, so the variance is \<open>4\<close>.
\<close>

theorem retention_variance_counterexample:
  "retention_logp (ret_Retention_Rate ex_retention) (ret_Follow_up_Time ex_retention) (1 / 2) 2
     = Inr (normal_like (4 / 5) (1 / 2) (1 / 4))
   \<and> variance (normal_like (4 / 5) (1 / 2) (1 / 4)) \<noteq> 1 / 2\<^sup>2"
  by (simp add: retention_logp_def pypow_pos pydiv_def bind_def variance_def ex_retention_def)

section \<open>The joins\<close>

lemma map_of_setitem: "map_of (setitem dd k d) = (map_of dd)(k \<mapsto> d)"
  by (simp add: setitem_def update_conv')

lemma distinct_setitem: "distinct (map fst dd) \<Longrightarrow> distinct (map fst (setitem dd k d))"
  by (simp add: setitem_def distinct_update)

lemma setfield_Inr:
  assumes "setfield dd k f v = Inr dd'"
  shows "\<exists>d. map_of dd k = Some d \<and> map_of dd' = (map_of dd)(k \<mapsto> d(f \<mapsto> v))"
    and "distinct (map fst dd) \<Longrightarrow> distinct (map fst dd')"
  using assms by (auto simp: setfield_def update_conv' distinct_update split: option.splits)

lemma setfield_Some:
  "map_of dd k = Some d \<Longrightarrow> setfield dd k f v = Inr (AList.update k (d(f \<mapsto> v)) dd)"
  by (simp add: setfield_def)

lemma setfield_fault: "setfield dd k f v = Inl e \<Longrightarrow> map_of dd k = None \<and> e = KeyError"
  by (auto simp: setfield_def split: option.splits)

lemma store_admin_Inr:
  "\<exists>dd'. store_admin a dd = Inr dd'
     \<and> map_of dd' = (map_of dd)(adm_key a \<mapsto> (entry dd (adm_key a))(''obs'' \<mapsto> adm_Program_LLINs a))
     \<and> (distinct (map fst dd) \<longrightarrow> distinct (map fst dd'))"
  by (auto simp: store_admin_def Let_def has_key_def setfield_def map_of_setitem entry_def
      adm_key_def update_conv' distinct_update distinct_setitem split: option.splits)

lemma store_flow_Inr:
  assumes "store_flow mu_pi h dd = Inr dd'"
  shows "\<exists>q. pypow (1 - mu_pi) (flow_time h) = Inr q \<and> q \<noteq> 0
     \<and> map_of dd' = (map_of dd)(flow_key h \<mapsto> (entry dd (flow_key h))
          (''time'' \<mapsto> flow_time h, ''truth'' \<mapsto> flow_Total_LLINs h / q, ''se'' \<mapsto> flow_Total_st h))"
    and "distinct (map fst dd) \<Longrightarrow> distinct (map fst dd')"
  using assms
  by (auto simp: store_flow_def Let_def has_key_def setfield_def getfield_def getf_def
      map_of_setitem entry_def flow_key_def flow_time_def update_conv' distinct_update
      distinct_setitem bind_def pydiv_def
      split: option.splits sum.splits if_splits)

lemma store_flow_fault:
  assumes "store_flow mu_pi h dd = Inl e"
  shows "e \<noteq> KeyError"
  using assms
  by (auto simp: store_flow_def Let_def has_key_def setfield_def getfield_def getf_def
      map_of_setitem update_conv' bind_def pydiv_def pypow_def
      split: option.splits sum.splits if_splits)

lemma foldM_invariant:
  assumes "foldM f xs s = Inr s'" and "Q A s"
      and "\<And>x B t t'. x \<in> set xs \<Longrightarrow> Q B t \<Longrightarrow> f x t = Inr t' \<Longrightarrow> Q (insert x B) t'"
  shows "Q (A \<union> set xs) s'"
  using assms
proof (induction xs arbitrary: s A)
  case Nil
  then show ?case by simp
next
  case (Cons x xs)
  from Cons.prems(1) obtain t where t: "f x s = Inr t" and r: "foldM f xs t = Inr s'"
    by (auto simp: bind_def split: sum.splits)
  have "Q (insert x A) t"
    using Cons.prems(3) [of x A s t] Cons.prems(2) t by simp
  then have "Q (insert x A \<union> set xs) s'"
    using Cons.IH [OF r, of "insert x A"] Cons.prems(3) by simp
  then show ?case by simp
qed

lemma foldM_fault:
  assumes "foldM f xs s = Inl e" and "Q A s"
      and "\<And>x B t t'. x \<in> set xs \<Longrightarrow> Q B t \<Longrightarrow> f x t = Inr t' \<Longrightarrow> Q (insert x B) t'"
  shows "\<exists>x\<in>set xs. \<exists>B t. Q B t \<and> f x t = Inl e"
  using assms
proof (induction xs arbitrary: s A)
  case Nil
  then show ?case by simp
next
  case (Cons x xs)
  show ?case
  proof (cases "f x s")
    case (Inl e')
    with Cons.prems(1) have "e' = e" by (simp add: bind_def)
    with Inl Cons.prems(2) show ?thesis by auto
  next
    case (Inr t)
    with Cons.prems(1) have r: "foldM f xs t = Inl e" by (simp add: bind_def)
    have "Q (insert x A) t"
      using Cons.prems(3) [of x A s t] Cons.prems(2) Inr by simp
    then have "\<exists>y\<in>set xs. \<exists>B t. Q B t \<and> f y t = Inl e"
      using Cons.IH [OF r, of "insert x A"] Cons.prems(3) by simp
    then show ?thesis by auto
  qed
qed

lemma flow_inv_empty: "flow_inv mu_pi {} {} []"
  by (simp add: flow_inv_def)

lemma flow_invD:
  assumes "flow_inv mu_pi A F dd"
  shows "distinct (map fst dd)"
    and "(map_of dd k = None) = (k \<notin> adm_key ` A \<and> k \<notin> flow_key ` F)"
    and "map_of dd k = Some d \<Longrightarrow>
           (if k \<in> adm_key ` A
            then \<exists>a\<in>A. adm_key a = k \<and> d ''obs'' = Some (adm_Program_LLINs a)
            else d ''obs'' = None)"
    and "map_of dd k = Some d \<Longrightarrow>
           (if k \<in> flow_key ` F
            then \<exists>h\<in>F. flow_key h = k \<and> flow_ok mu_pi h d
            else d ''time'' = None \<and> d ''truth'' = None \<and> d ''se'' = None)"
    and "map_of dd k = Some d \<Longrightarrow> dom d \<subseteq> {''obs'', ''time'', ''truth'', ''se''}"
proof -
  show "distinct (map fst dd)" using assms unfolding flow_inv_def by (rule conjunct1)
  show "(map_of dd k = None) = (k \<notin> adm_key ` A \<and> k \<notin> flow_key ` F)"
    using assms unfolding flow_inv_def by (elim conjE allE [of _ k])
  have *: "map_of dd k = Some d \<longrightarrow>
           (if k \<in> adm_key ` A
            then \<exists>a\<in>A. adm_key a = k \<and> d ''obs'' = Some (adm_Program_LLINs a)
            else d ''obs'' = None)
         \<and> (if k \<in> flow_key ` F
            then \<exists>h\<in>F. flow_key h = k \<and> flow_ok mu_pi h d
            else d ''time'' = None \<and> d ''truth'' = None \<and> d ''se'' = None)
         \<and> dom d \<subseteq> {''obs'', ''time'', ''truth'', ''se''}"
    using assms unfolding flow_inv_def by (elim conjE allE [of _ k] allE [of _ d])
  show "map_of dd k = Some d \<Longrightarrow>
           (if k \<in> adm_key ` A
            then \<exists>a\<in>A. adm_key a = k \<and> d ''obs'' = Some (adm_Program_LLINs a)
            else d ''obs'' = None)" using * by (elim impE conjE)
  show "map_of dd k = Some d \<Longrightarrow>
           (if k \<in> flow_key ` F
            then \<exists>h\<in>F. flow_key h = k \<and> flow_ok mu_pi h d
            else d ''time'' = None \<and> d ''truth'' = None \<and> d ''se'' = None)"
    using * by (elim impE conjE)
  show "map_of dd k = Some d \<Longrightarrow> dom d \<subseteq> {''obs'', ''time'', ''truth'', ''se''}"
    using * by (elim impE conjE)
qed

lemma flow_invI:
  assumes "distinct (map fst dd)"
    and "\<And>k. (map_of dd k = None) = (k \<notin> adm_key ` A \<and> k \<notin> flow_key ` F)"
    and "\<And>k d. map_of dd k = Some d \<Longrightarrow>
           (if k \<in> adm_key ` A
            then \<exists>a\<in>A. adm_key a = k \<and> d ''obs'' = Some (adm_Program_LLINs a)
            else d ''obs'' = None)"
    and "\<And>k d. map_of dd k = Some d \<Longrightarrow>
           (if k \<in> flow_key ` F
            then \<exists>h\<in>F. flow_key h = k \<and> flow_ok mu_pi h d
            else d ''time'' = None \<and> d ''truth'' = None \<and> d ''se'' = None)"
    and "\<And>k d. map_of dd k = Some d \<Longrightarrow> dom d \<subseteq> {''obs'', ''time'', ''truth'', ''se''}"
  shows "flow_inv mu_pi A F dd"
  unfolding flow_inv_def
  by (intro conjI allI impI assms)

lemma entry_inv:
  assumes "flow_inv mu_pi A F dd"
  shows "if k \<in> adm_key ` A
            then \<exists>a\<in>A. adm_key a = k \<and> entry dd k ''obs'' = Some (adm_Program_LLINs a)
            else entry dd k ''obs'' = None"
    and "if k \<in> flow_key ` F
            then \<exists>h\<in>F. flow_key h = k \<and> flow_ok mu_pi h (entry dd k)
            else entry dd k ''time'' = None \<and> entry dd k ''truth'' = None \<and> entry dd k ''se'' = None"
    and "dom (entry dd k) \<subseteq> {''obs'', ''time'', ''truth'', ''se''}"
proof -
  show "if k \<in> adm_key ` A
            then \<exists>a\<in>A. adm_key a = k \<and> entry dd k ''obs'' = Some (adm_Program_LLINs a)
            else entry dd k ''obs'' = None"
  proof (cases "map_of dd k")
    case None
    with flow_invD(2) [OF assms, of k] show ?thesis by (simp add: entry_def)
  next
    case (Some d)
    with flow_invD(3) [OF assms Some] show ?thesis by (simp add: entry_def)
  qed
  show "if k \<in> flow_key ` F
            then \<exists>h\<in>F. flow_key h = k \<and> flow_ok mu_pi h (entry dd k)
            else entry dd k ''time'' = None \<and> entry dd k ''truth'' = None \<and> entry dd k ''se'' = None"
  proof (cases "map_of dd k")
    case None
    with flow_invD(2) [OF assms, of k] show ?thesis by (simp add: entry_def)
  next
    case (Some d)
    with flow_invD(4) [OF assms Some] show ?thesis by (simp add: entry_def)
  qed
  show "dom (entry dd k) \<subseteq> {''obs'', ''time'', ''truth'', ''se''}"
  proof (cases "map_of dd k")
    case None
    then show ?thesis by (simp add: entry_def)
  next
    case (Some d)
    with flow_invD(5) [OF assms Some] show ?thesis by (simp add: entry_def)
  qed
qed

lemma flow_ok_cong:
  assumes "d' ''time'' = d ''time''" "d' ''truth'' = d ''truth''" "d' ''se'' = d ''se''"
  shows "flow_ok mu_pi h d' = flow_ok mu_pi h d"
  by (simp add: flow_ok_def assms)

lemma admin_step:
  assumes inv: "flow_inv mu_pi A {} dd" and st: "store_admin a dd = Inr dd'"
  shows "flow_inv mu_pi (insert a A) {} dd'"
proof -
  let ?k = "adm_key a"
  let ?d = "(entry dd ?k)(''obs'' \<mapsto> adm_Program_LLINs a)"
  from store_admin_Inr [of a dd] st
  have m: "map_of dd' = (map_of dd)(?k \<mapsto> ?d)"
    and d: "distinct (map fst dd) \<longrightarrow> distinct (map fst dd')"
    by auto
  show ?thesis
  proof (rule flow_invI)
    show "distinct (map fst dd')" using d flow_invD(1) [OF inv] by simp
  next
    fix k
    show "(map_of dd' k = None) = (k \<notin> adm_key ` insert a A \<and> k \<notin> flow_key ` {})"
      using flow_invD(2) [OF inv, of k] unfolding m by auto
  next
    fix k d0 assume s: "map_of dd' k = Some d0"
    show "if k \<in> adm_key ` insert a A
          then \<exists>a'\<in>insert a A. adm_key a' = k \<and> d0 ''obs'' = Some (adm_Program_LLINs a')
          else d0 ''obs'' = None"
    proof (cases "k = ?k")
      case True
      with s have "d0 = ?d" unfolding m by simp
      then have "d0 ''obs'' = Some (adm_Program_LLINs a)" by simp
      with True show ?thesis by auto
    next
      case False
      with s have "map_of dd k = Some d0" unfolding m by simp
      from flow_invD(3) [OF inv this] False show ?thesis by (auto split: if_splits)
    qed
  next
    fix k d0 assume s: "map_of dd' k = Some d0"
    show "if k \<in> flow_key ` {}
          then \<exists>h\<in>{}. flow_key h = k \<and> flow_ok mu_pi h d0
          else d0 ''time'' = None \<and> d0 ''truth'' = None \<and> d0 ''se'' = None"
    proof (cases "k = ?k")
      case True
      with s have "d0 = ?d" unfolding m by simp
      then show ?thesis using entry_inv(2) [OF inv, of ?k] by simp
    next
      case False
      with s have "map_of dd k = Some d0" unfolding m by simp
      from flow_invD(4) [OF inv this] show ?thesis by simp
    qed
  next
    fix k d0 assume s: "map_of dd' k = Some d0"
    show "dom d0 \<subseteq> {''obs'', ''time'', ''truth'', ''se''}"
    proof (cases "k = ?k")
      case True
      with s have "d0 = ?d" unfolding m by simp
      then show ?thesis using entry_inv(3) [OF inv, of ?k] by auto
    next
      case False
      with s have "map_of dd k = Some d0" unfolding m by simp
      from flow_invD(5) [OF inv this] show ?thesis .
    qed
  qed
qed

lemma flow_step:
  assumes inv: "flow_inv mu_pi A F dd" and st: "store_flow mu_pi h dd = Inr dd'"
  shows "flow_inv mu_pi A (insert h F) dd'"
proof -
  let ?k = "flow_key h"
  from store_flow_Inr [OF st] obtain q where
    q: "pypow (1 - mu_pi) (flow_time h) = Inr q" "q \<noteq> 0" and
    m: "map_of dd' = (map_of dd)(?k \<mapsto> (entry dd ?k)
          (''time'' \<mapsto> flow_time h, ''truth'' \<mapsto> flow_Total_LLINs h / q, ''se'' \<mapsto> flow_Total_st h))"
    and d: "distinct (map fst dd) \<Longrightarrow> distinct (map fst dd')"
    by auto
  let ?d = "(entry dd ?k)
          (''time'' \<mapsto> flow_time h, ''truth'' \<mapsto> flow_Total_LLINs h / q, ''se'' \<mapsto> flow_Total_st h)"
  have ok: "flow_ok mu_pi h ?d"
    using q by (auto simp: flow_ok_def)
  have obs: "?d ''obs'' = entry dd ?k ''obs''" by simp
  show ?thesis
  proof (rule flow_invI)
    show "distinct (map fst dd')" using d flow_invD(1) [OF inv] by simp
  next
    fix k
    show "(map_of dd' k = None) = (k \<notin> adm_key ` A \<and> k \<notin> flow_key ` insert h F)"
      using flow_invD(2) [OF inv, of k] unfolding m by auto
  next
    fix k d0 assume s: "map_of dd' k = Some d0"
    show "if k \<in> adm_key ` A
          then \<exists>a\<in>A. adm_key a = k \<and> d0 ''obs'' = Some (adm_Program_LLINs a)
          else d0 ''obs'' = None"
    proof (cases "k = ?k")
      case True
      with s have "d0 = ?d" unfolding m by simp
      then have "d0 ''obs'' = entry dd ?k ''obs''" using obs by simp
      then show ?thesis using entry_inv(1) [OF inv, of ?k] True by simp
    next
      case False
      with s have "map_of dd k = Some d0" unfolding m by simp
      from flow_invD(3) [OF inv this] show ?thesis .
    qed
  next
    fix k d0 assume s: "map_of dd' k = Some d0"
    show "if k \<in> flow_key ` insert h F
          then \<exists>h'\<in>insert h F. flow_key h' = k \<and> flow_ok mu_pi h' d0
          else d0 ''time'' = None \<and> d0 ''truth'' = None \<and> d0 ''se'' = None"
    proof (cases "k = ?k")
      case True
      with s have "d0 = ?d" unfolding m by simp
      with ok True show ?thesis by auto
    next
      case False
      with s have "map_of dd k = Some d0" unfolding m by simp
      from flow_invD(4) [OF inv this] False show ?thesis by (auto split: if_splits)
    qed
  next
    fix k d0 assume s: "map_of dd' k = Some d0"
    show "dom d0 \<subseteq> {''obs'', ''time'', ''truth'', ''se''}"
    proof (cases "k = ?k")
      case True
      with s have "d0 = ?d" unfolding m by simp
      then show ?thesis using entry_inv(3) [OF inv, of ?k] by auto
    next
      case False
      with s have "map_of dd k = Some d0" unfolding m by simp
      from flow_invD(5) [OF inv this] show ?thesis .
    qed
  qed
qed

lemma admin_phase:
  assumes "foldM store_admin adm [] = Inr dd"
  shows "flow_inv mu_pi (set adm) {} dd"
  using foldM_invariant [of store_admin adm "[]" dd "\<lambda>A. flow_inv mu_pi A {}" "{}",
      OF assms flow_inv_empty] admin_step
  by simp

lemma admin_phase_total: "\<exists>dd. foldM store_admin adm s = Inr dd"
proof (induction adm arbitrary: s)
  case Nil
  then show ?case by simp
next
  case (Cons a adm)
  obtain t where "store_admin a s = Inr t" using store_admin_Inr [of a s] by blast
  then show ?case using Cons.IH [of t] by (simp add: bind_def)
qed

lemma flow_phase:
  assumes "flow_inv mu_pi A {} dd" "foldM (store_flow mu_pi) flow dd = Inr dd'"
  shows "flow_inv mu_pi A (set flow) dd'"
  using foldM_invariant [of "store_flow mu_pi" flow dd dd' "flow_inv mu_pi A" "{}",
      OF assms(2) assms(1)] flow_step
  by simp

lemma flow_phase_fault:
  assumes "foldM (store_flow mu_pi) flow dd = Inl e"
  shows "e \<noteq> KeyError"
  using assms
proof (induction flow arbitrary: dd)
  case Nil
  then show ?case by simp
next
  case (Cons h flow)
  show ?case
  proof (cases "store_flow mu_pi h dd")
    case (Inl e')
    with Cons.prems have "e' = e" by (simp add: bind_def)
    with Inl store_flow_fault show ?thesis by blast
  next
    case (Inr t)
    with Cons.prems have "foldM (store_flow mu_pi) flow t = Inl e" by (simp add: bind_def)
    then show ?thesis by (rule Cons.IH)
  qed
qed

lemma keep_len_iff:
  assumes "distinct (map fst dd)"
  shows "((k, d) \<in> set (keep_len n dd)) = (map_of dd k = Some d \<and> len d = n)"
  using assms by (auto simp: keep_len_def)

lemma flow_inv_dom:
  assumes inv: "flow_inv mu_pi A F dd" and s: "map_of dd k = Some d"
  shows "dom d = (if k \<in> adm_key ` A then {''obs''} else {})
               \<union> (if k \<in> flow_key ` F then {''time'', ''truth'', ''se''} else {})"
proof -
  note o = flow_invD(3) [OF inv s] and f = flow_invD(4) [OF inv s] and b = flow_invD(5) [OF inv s]
  have 1: "(''obs'' \<in> dom d) = (k \<in> adm_key ` A)"
    using o by (auto split: if_splits)
  have 2: "(''time'' \<in> dom d) = (k \<in> flow_key ` F)"
       "(''truth'' \<in> dom d) = (k \<in> flow_key ` F)"
       "(''se'' \<in> dom d) = (k \<in> flow_key ` F)"
    using f by (auto simp: flow_ok_def split: if_splits)
  show ?thesis
  proof (rule set_eqI)
    fix x
    show "(x \<in> dom d) = (x \<in> (if k \<in> adm_key ` A then {''obs''} else {})
               \<union> (if k \<in> flow_key ` F then {''time'', ''truth'', ''se''} else {}))"
    proof (cases "x \<in> {''obs'', ''time'', ''truth'', ''se''}")
      case True
      then have "x = ''obs'' \<or> x = ''time'' \<or> x = ''truth'' \<or> x = ''se''" by simp
      then show ?thesis
      proof (elim disjE)
        assume "x = ''obs''" then show ?thesis using 1 by simp
      next
        assume "x = ''time''" then show ?thesis using 2(1) by simp
      next
        assume "x = ''truth''" then show ?thesis using 2(2) by simp
      next
        assume "x = ''se''" then show ?thesis using 2(3) by simp
      qed
    next
      case False
      with b have "x \<notin> dom d" by blast
      with False show ?thesis by (auto split: if_splits)
    qed
  qed
qed

lemma flow_inv_len:
  assumes inv: "flow_inv mu_pi A F dd" and s: "map_of dd k = Some d"
  shows "(len d = 4) = (k \<in> adm_key ` A \<and> k \<in> flow_key ` F)"
  unfolding len_def flow_inv_dom [OF inv s] by simp

lemma admin_data_dict_Inr:
  assumes "admin_data_dict mu_pi adm flow = Inr dd"
  shows "\<exists>dd2. flow_inv mu_pi (set adm) (set flow) dd2 \<and> dd = keep_len 4 dd2"
proof -
  from assms obtain dd1 dd2 where
    1: "foldM store_admin adm [] = Inr dd1" and
    2: "foldM (store_flow mu_pi) flow dd1 = Inr dd2" and
    3: "dd = keep_len 4 dd2"
    by (auto simp: admin_data_dict_def bind_def split: sum.splits)
  from flow_phase [OF admin_phase [OF 1] 2] 3 show ?thesis by blast
qed

lemma admin_data_dict_member:
  assumes "admin_data_dict mu_pi adm flow = Inr dd" and "(k, d) \<in> set dd"
  shows "\<exists>a\<in>set adm. \<exists>h\<in>set flow. adm_key a = k \<and> flow_key h = k
           \<and> d ''obs'' = Some (adm_Program_LLINs a) \<and> flow_ok mu_pi h d"
    and "dom d = {''obs'', ''time'', ''truth'', ''se''}"
proof -
  from admin_data_dict_Inr [OF assms(1)] obtain dd2 where
    inv: "flow_inv mu_pi (set adm) (set flow) dd2" and dd: "dd = keep_len 4 dd2" by blast
  from assms(2) have s: "map_of dd2 k = Some d" and l: "len d = 4"
    unfolding dd using keep_len_iff [OF flow_invD(1) [OF inv]] by auto
  from l flow_inv_len [OF inv s] have k: "k \<in> adm_key ` set adm" "k \<in> flow_key ` set flow"
    by auto
  from flow_invD(3) [OF inv s] flow_invD(4) [OF inv s] k
  show "\<exists>a\<in>set adm. \<exists>h\<in>set flow. adm_key a = k \<and> flow_key h = k
           \<and> d ''obs'' = Some (adm_Program_LLINs a) \<and> flow_ok mu_pi h d"
    by auto
  from flow_inv_dom [OF inv s] k show "dom d = {''obs'', ''time'', ''truth'', ''se''}"
    by auto
qed

lemma admin_data_dict_keys:
  assumes "admin_data_dict mu_pi adm flow = Inr dd"
  shows "(k \<in> fst ` set dd) = (k \<in> adm_key ` set adm \<and> k \<in> flow_key ` set flow)"
proof -
  from admin_data_dict_Inr [OF assms] obtain dd2 where
    inv: "flow_inv mu_pi (set adm) (set flow) dd2" and dd: "dd = keep_len 4 dd2" by blast
  note ki = keep_len_iff [OF flow_invD(1) [OF inv]]
  show ?thesis
  proof
    assume "k \<in> fst ` set dd"
    then obtain d where "(k, d) \<in> set dd" by auto
    then have "map_of dd2 k = Some d" "len d = 4" unfolding dd using ki by auto
    with flow_inv_len [OF inv] show "k \<in> adm_key ` set adm \<and> k \<in> flow_key ` set flow"
      by blast
  next
    assume k: "k \<in> adm_key ` set adm \<and> k \<in> flow_key ` set flow"
    with flow_invD(2) [OF inv, of k] obtain d where s: "map_of dd2 k = Some d" by auto
    with flow_inv_len [OF inv s] k have "(k, d) \<in> set dd" unfolding dd using ki by auto
    then show "k \<in> fst ` set dd" by force
  qed
qed

lemma admin_data_dict_no_KeyError: "admin_data_dict mu_pi adm flow \<noteq> Inl KeyError"
proof
  assume a: "admin_data_dict mu_pi adm flow = Inl KeyError"
  obtain dd1 where 1: "foldM store_admin adm [] = Inr dd1"
    using admin_phase_total by blast
  with a have "foldM (store_flow mu_pi) flow dd1 = Inl KeyError"
    by (auto simp: admin_data_dict_def bind_def split: sum.splits)
  from flow_phase_fault [OF this] show False by simp
qed

lemma mapM_Inr:
  assumes "mapM f xs = Inr ys"
  shows "list_all2 (\<lambda>x y. f x = Inr y) xs ys"
  using assms
proof (induction xs arbitrary: ys)
  case Nil
  then show ?case by simp
next
  case (Cons x xs)
  then show ?case by (auto simp: bind_def split: sum.splits)
qed

lemma admin_node_Inr:
  assumes "admin_node d = Inr nd"
      and "d ''obs'' = Some obs" "d ''truth'' = Some truth" "d ''se'' = Some se"
  shows "truth \<noteq> 0 \<and> nd = admin_obs (np_log obs) (np_log truth) (1.1 * se\<^sup>2 / truth\<^sup>2)"
  using assms
  by (auto simp: admin_node_def getf_def bind_def pydiv_def split: if_splits)

lemma mu_pi_of_Inr:
  assumes "mu_pi_of j = Inr m"
  shows "\<exists>a b. getitem j ''alpha'' = Inr (JNum a) \<and> getitem j ''beta'' = Inr (JNum b)
           \<and> a + b \<noteq> 0 \<and> m = a / (a + b)"
  using assms
  by (auto simp: mu_pi_of_def bind_def as_float_def pydiv_def
      split: sum.splits json.splits if_splits)

lemma admin_logp_eq:
  assumes "0 \<le> log_v" "s \<noteq> 0"
  shows "admin_logp v lt log_v e s = Inr (normal_like v (lt + e) (1 / (log_v + s\<^sup>2)))"
    and "variance (normal_like v (lt + e) (1 / (log_v + s\<^sup>2))) = log_v + s\<^sup>2"
proof -
  have "0 < s\<^sup>2" using assms(2) by simp
  with assms(1) have "log_v + s\<^sup>2 \<noteq> 0" by linarith
  then show "admin_logp v lt log_v e s = Inr (normal_like v (lt + e) (1 / (log_v + s\<^sup>2)))"
    by (simp add: admin_logp_def pydiv_def bind_def)
  show "variance (normal_like v (lt + e) (1 / (log_v + s\<^sup>2))) = log_v + s\<^sup>2"
    by (simp add: variance_def)
qed

lemma mapM_member:
  assumes "mapM f xs = Inr ys" and "x \<in> set xs"
  shows "\<exists>y\<in>set ys. f x = Inr y"
  using assms
proof (induction xs arbitrary: ys)
  case Nil
  then show ?case by simp
next
  case (Cons z zs)
  from Cons.prems(1) obtain y ys' where
    y: "f z = Inr y" and r: "mapM f zs = Inr ys'" and e: "ys = y # ys'"
    by (auto simp: bind_def split: sum.splits)
  show ?case
  proof (cases "x = z")
    case True
    with y e show ?thesis by simp
  next
    case False
    with Cons.prems(2) have "x \<in> set zs" by simp
    from Cons.IH [OF r this] e show ?thesis by auto
  qed
qed

lemma admin_vars_member:
  assumes "admin_vars sigma eps dd = Inr vars" and "(k, d) \<in> set dd"
  shows "\<exists>nd. admin_node d = Inr nd \<and> N nd \<in> set vars"
proof -
  from assms(1) obtain obs where
    m: "mapM admin_node (map snd dd) = Inr obs" and v: "vars = [N sigma, N eps] @ map N obs"
    by (auto simp: admin_vars_def bind_def split: sum.splits)
  from assms(2) have "d \<in> set (map snd dd)" by force
  from mapM_member [OF m this] obtain nd where "nd \<in> set obs" "admin_node d = Inr nd"
    by blast
  with v show ?thesis by auto
qed

lemma cov_inv_empty: "cov_inv {} {} {} []"
  by (simp add: cov_inv_def)

lemma cov_invD:
  assumes "cov_inv P S C dd"
  shows "distinct (map fst dd)"
    and "(map_of dd k = None) = (k \<notin> pop_key ` P)"
    and "map_of dd k = Some d \<Longrightarrow> \<exists>p\<in>P. pop_key p = k \<and> d ''pop'' = Some (pop_Pop p * 1000)"
    and "map_of dd k = Some d \<Longrightarrow>
           (if k \<in> stk_key ` S
            then \<exists>s\<in>S. stk_key s = k \<and> stock_ok s d
            else d ''stock'' = None \<and> d ''stock_se'' = None)"
    and "map_of dd k = Some d \<Longrightarrow>
           (if k \<in> cvg_key ` C
            then \<exists>c\<in>C. cvg_key c = k \<and> d ''uncovered'' = Some (cvg_Per_0LLINs c)
                   \<and> d ''se'' = Some (cvg_LLINs0_SE c)
            else d ''uncovered'' = None \<and> d ''se'' = None)"
    and "map_of dd k = Some d \<Longrightarrow> dom d \<subseteq> {''pop'', ''stock'', ''stock_se'', ''uncovered'', ''se''}"
proof -
  show "distinct (map fst dd)" using assms unfolding cov_inv_def by (rule conjunct1)
  show "(map_of dd k = None) = (k \<notin> pop_key ` P)"
    using assms unfolding cov_inv_def by (elim conjE allE [of _ k])
  have *: "map_of dd k = Some d \<longrightarrow>
           (\<exists>p\<in>P. pop_key p = k \<and> d ''pop'' = Some (pop_Pop p * 1000))
         \<and> (if k \<in> stk_key ` S
            then \<exists>s\<in>S. stk_key s = k \<and> stock_ok s d
            else d ''stock'' = None \<and> d ''stock_se'' = None)
         \<and> (if k \<in> cvg_key ` C
            then \<exists>c\<in>C. cvg_key c = k \<and> d ''uncovered'' = Some (cvg_Per_0LLINs c)
                   \<and> d ''se'' = Some (cvg_LLINs0_SE c)
            else d ''uncovered'' = None \<and> d ''se'' = None)
         \<and> dom d \<subseteq> {''pop'', ''stock'', ''stock_se'', ''uncovered'', ''se''}"
    using assms unfolding cov_inv_def by (elim conjE allE [of _ k] allE [of _ d])
  show "map_of dd k = Some d \<Longrightarrow> \<exists>p\<in>P. pop_key p = k \<and> d ''pop'' = Some (pop_Pop p * 1000)"
    using * by (elim impE conjE)
  show "map_of dd k = Some d \<Longrightarrow>
           (if k \<in> stk_key ` S
            then \<exists>s\<in>S. stk_key s = k \<and> stock_ok s d
            else d ''stock'' = None \<and> d ''stock_se'' = None)"
    using * by (elim impE conjE)
  show "map_of dd k = Some d \<Longrightarrow>
           (if k \<in> cvg_key ` C
            then \<exists>c\<in>C. cvg_key c = k \<and> d ''uncovered'' = Some (cvg_Per_0LLINs c)
                   \<and> d ''se'' = Some (cvg_LLINs0_SE c)
            else d ''uncovered'' = None \<and> d ''se'' = None)"
    using * by (elim impE conjE)
  show "map_of dd k = Some d \<Longrightarrow> dom d \<subseteq> {''pop'', ''stock'', ''stock_se'', ''uncovered'', ''se''}"
    using * by (elim impE conjE)
qed

lemma cov_invI:
  assumes "distinct (map fst dd)"
    and "\<And>k. (map_of dd k = None) = (k \<notin> pop_key ` P)"
    and "\<And>k d. map_of dd k = Some d \<Longrightarrow>
           \<exists>p\<in>P. pop_key p = k \<and> d ''pop'' = Some (pop_Pop p * 1000)"
    and "\<And>k d. map_of dd k = Some d \<Longrightarrow>
           (if k \<in> stk_key ` S
            then \<exists>s\<in>S. stk_key s = k \<and> stock_ok s d
            else d ''stock'' = None \<and> d ''stock_se'' = None)"
    and "\<And>k d. map_of dd k = Some d \<Longrightarrow>
           (if k \<in> cvg_key ` C
            then \<exists>c\<in>C. cvg_key c = k \<and> d ''uncovered'' = Some (cvg_Per_0LLINs c)
                   \<and> d ''se'' = Some (cvg_LLINs0_SE c)
            else d ''uncovered'' = None \<and> d ''se'' = None)"
    and "\<And>k d. map_of dd k = Some d \<Longrightarrow>
           dom d \<subseteq> {''pop'', ''stock'', ''stock_se'', ''uncovered'', ''se''}"
  shows "cov_inv P S C dd"
  unfolding cov_inv_def
  by (intro conjI allI impI assms)

lemma store_population_Inr:
  "\<exists>dd'. store_population p dd = Inr dd'
     \<and> map_of dd' = (map_of dd)(pop_key p \<mapsto> [''pop'' \<mapsto> pop_Pop p * 1000])
     \<and> (distinct (map fst dd) \<longrightarrow> distinct (map fst dd'))"
  by (auto simp: store_population_def Let_def setfield_def map_of_setitem
      pop_key_def update_conv' distinct_update distinct_setitem split: option.splits)

lemma store_stock_Inr:
  assumes "store_stock s dd = Inr dd'"
  shows "\<exists>d pv. map_of dd (stk_key s) = Some d \<and> d ''pop'' = Some pv \<and> pv \<noteq> 0
     \<and> map_of dd' = (map_of dd)(stk_key s \<mapsto>
          d(''stock'' \<mapsto> stk_SvyIndex_LLINstotal s / pv, ''stock_se'' \<mapsto> stk_SvyIndex_st s / pv))"
    and "distinct (map fst dd) \<Longrightarrow> distinct (map fst dd')"
  using assms
  by (auto simp: store_stock_def Let_def setfield_def getfield_def getf_def
      stk_key_def update_conv' distinct_update bind_def pydiv_def
      split: option.splits sum.splits if_splits)

lemma store_stock_KeyError:
  assumes "store_stock s dd = Inl KeyError" and "map_of dd (stk_key s) = Some d"
  shows "d ''pop'' = None"
  using assms
  by (auto simp: store_stock_def Let_def setfield_def getfield_def getf_def
      stk_key_def update_conv' bind_def pydiv_def
      split: option.splits sum.splits if_splits)

lemma store_coverage_Inr:
  assumes "store_coverage c dd = Inr dd'"
  shows "\<exists>d. map_of dd (cvg_key c) = Some d
     \<and> map_of dd' = (map_of dd)(cvg_key c \<mapsto>
          d(''uncovered'' \<mapsto> cvg_Per_0LLINs c, ''se'' \<mapsto> cvg_LLINs0_SE c))"
    and "distinct (map fst dd) \<Longrightarrow> distinct (map fst dd')"
  using assms
  by (auto simp: store_coverage_def Let_def setfield_def cvg_key_def update_conv'
      distinct_update bind_def split: option.splits sum.splits if_splits)

lemma store_coverage_fault:
  assumes "store_coverage c dd = Inl e"
  shows "e = KeyError \<and> map_of dd (cvg_key c) = None"
  using assms
  by (auto simp: store_coverage_def Let_def setfield_def cvg_key_def update_conv'
      bind_def split: option.splits sum.splits if_splits)

lemma store_coverage_Some:
  assumes "map_of dd (cvg_key c) = Some d"
  shows "\<exists>dd'. store_coverage c dd = Inr dd'"
  using assms
  by (auto simp: store_coverage_def Let_def setfield_def cvg_key_def update_conv' bind_def)

lemma stock_ok_cong:
  assumes "d' ''pop'' = d ''pop''" "d' ''stock'' = d ''stock''" "d' ''stock_se'' = d ''stock_se''"
  shows "stock_ok s d' = stock_ok s d"
  by (simp add: stock_ok_def assms)

lemma pop_step:
  assumes inv: "cov_inv P {} {} dd" and st: "store_population p dd = Inr dd'"
  shows "cov_inv (insert p P) {} {} dd'"
proof -
  let ?k = "pop_key p"
  let ?d = "[''pop'' \<mapsto> pop_Pop p * 1000]"
  from store_population_Inr [of p dd] st
  have m: "map_of dd' = (map_of dd)(?k \<mapsto> ?d)"
    and d: "distinct (map fst dd) \<longrightarrow> distinct (map fst dd')"
    by auto
  have new: "d0 ''pop'' = Some (pop_Pop p * 1000) \<and> d0 ''stock'' = None \<and> d0 ''stock_se'' = None
      \<and> d0 ''uncovered'' = None \<and> d0 ''se'' = None \<and> dom d0 = {''pop''}"
    if "map_of dd' ?k = Some d0" for d0
  proof -
    from that have "d0 = ?d" unfolding m by simp
    then show ?thesis by simp
  qed
  have old: "map_of dd k = Some d0" if "map_of dd' k = Some d0" "k \<noteq> ?k" for k d0
    using that unfolding m by simp
  show ?thesis
  proof (rule cov_invI)
    show "distinct (map fst dd')" using d cov_invD(1) [OF inv] by simp
  next
    fix k
    show "(map_of dd' k = None) = (k \<notin> pop_key ` insert p P)"
      using cov_invD(2) [OF inv, of k] unfolding m by auto
  next
    fix k d0 assume s: "map_of dd' k = Some d0"
    show "\<exists>p'\<in>insert p P. pop_key p' = k \<and> d0 ''pop'' = Some (pop_Pop p' * 1000)"
    proof (cases "k = ?k")
      case True
      with s new [of d0] show ?thesis by auto
    next
      case False
      from cov_invD(3) [OF inv old [OF s False]] show ?thesis by auto
    qed
  next
    fix k d0 assume s: "map_of dd' k = Some d0"
    show "if k \<in> stk_key ` {}
          then \<exists>s\<in>{}. stk_key s = k \<and> stock_ok s d0
          else d0 ''stock'' = None \<and> d0 ''stock_se'' = None"
    proof (cases "k = ?k")
      case True
      with s new [of d0] show ?thesis by simp
    next
      case False
      from cov_invD(4) [OF inv old [OF s False]] show ?thesis by simp
    qed
  next
    fix k d0 assume s: "map_of dd' k = Some d0"
    show "if k \<in> cvg_key ` {}
          then \<exists>c\<in>{}. cvg_key c = k \<and> d0 ''uncovered'' = Some (cvg_Per_0LLINs c)
                   \<and> d0 ''se'' = Some (cvg_LLINs0_SE c)
          else d0 ''uncovered'' = None \<and> d0 ''se'' = None"
    proof (cases "k = ?k")
      case True
      with s new [of d0] show ?thesis by simp
    next
      case False
      from cov_invD(5) [OF inv old [OF s False]] show ?thesis by simp
    qed
  next
    fix k d0 assume s: "map_of dd' k = Some d0"
    show "dom d0 \<subseteq> {''pop'', ''stock'', ''stock_se'', ''uncovered'', ''se''}"
    proof (cases "k = ?k")
      case True
      with s new [of d0] show ?thesis by simp
    next
      case False
      from cov_invD(6) [OF inv old [OF s False]] show ?thesis .
    qed
  qed
qed

lemma stock_step:
  assumes inv: "cov_inv P S C dd" and st: "store_stock s dd = Inr dd'"
  shows "cov_inv P (insert s S) C dd'"
proof -
  let ?k = "stk_key s"
  from store_stock_Inr [OF st] obtain d pv where
    e: "map_of dd ?k = Some d" and pv: "d ''pop'' = Some pv" "pv \<noteq> 0" and
    m: "map_of dd' = (map_of dd)(?k \<mapsto>
          d(''stock'' \<mapsto> stk_SvyIndex_LLINstotal s / pv, ''stock_se'' \<mapsto> stk_SvyIndex_st s / pv))"
    and dist: "distinct (map fst dd) \<Longrightarrow> distinct (map fst dd')"
    by auto
  let ?d = "d(''stock'' \<mapsto> stk_SvyIndex_LLINstotal s / pv, ''stock_se'' \<mapsto> stk_SvyIndex_st s / pv)"
  have ok: "stock_ok s ?d" using pv by (simp add: stock_ok_def)
  have same: "?d ''pop'' = d ''pop''" "?d ''uncovered'' = d ''uncovered''" "?d ''se'' = d ''se''"
    by simp_all
  have old: "map_of dd k = Some d0" if "map_of dd' k = Some d0" "k \<noteq> ?k" for k d0
    using that unfolding m by simp
  have new: "d0 = ?d" if "map_of dd' ?k = Some d0" for d0
    using that unfolding m by simp
  show ?thesis
  proof (rule cov_invI)
    show "distinct (map fst dd')" using dist cov_invD(1) [OF inv] by simp
  next
    fix k
    show "(map_of dd' k = None) = (k \<notin> pop_key ` P)"
      using cov_invD(2) [OF inv, of k] e unfolding m by auto
  next
    fix k d0 assume s: "map_of dd' k = Some d0"
    show "\<exists>p\<in>P. pop_key p = k \<and> d0 ''pop'' = Some (pop_Pop p * 1000)"
    proof (cases "k = ?k")
      case True
      with s new have "d0 ''pop'' = d ''pop''" using same(1) by simp
      with cov_invD(3) [OF inv e] True show ?thesis by simp
    next
      case False
      from cov_invD(3) [OF inv old [OF s False]] show ?thesis .
    qed
  next
    fix k d0 assume s0: "map_of dd' k = Some d0"
    show "if k \<in> stk_key ` insert s S
          then \<exists>s'\<in>insert s S. stk_key s' = k \<and> stock_ok s' d0
          else d0 ''stock'' = None \<and> d0 ''stock_se'' = None"
    proof (cases "k = ?k")
      case True
      with s0 new have "d0 = ?d" by simp
      with ok True show ?thesis by auto
    next
      case False
      from cov_invD(4) [OF inv old [OF s0 False]] False show ?thesis
        by (auto split: if_splits)
    qed
  next
    fix k d0 assume s0: "map_of dd' k = Some d0"
    show "if k \<in> cvg_key ` C
          then \<exists>c\<in>C. cvg_key c = k \<and> d0 ''uncovered'' = Some (cvg_Per_0LLINs c)
                   \<and> d0 ''se'' = Some (cvg_LLINs0_SE c)
          else d0 ''uncovered'' = None \<and> d0 ''se'' = None"
    proof (cases "k = ?k")
      case True
      with s0 new have "d0 ''uncovered'' = d ''uncovered''" "d0 ''se'' = d ''se''"
        using same(2,3) by simp_all
      with cov_invD(5) [OF inv e] True show ?thesis by simp
    next
      case False
      from cov_invD(5) [OF inv old [OF s0 False]] show ?thesis .
    qed
  next
    fix k d0 assume s0: "map_of dd' k = Some d0"
    show "dom d0 \<subseteq> {''pop'', ''stock'', ''stock_se'', ''uncovered'', ''se''}"
    proof (cases "k = ?k")
      case True
      with s0 new have "d0 = ?d" by simp
      with cov_invD(6) [OF inv e] show ?thesis by auto
    next
      case False
      from cov_invD(6) [OF inv old [OF s0 False]] show ?thesis .
    qed
  qed
qed

lemma coverage_step:
  assumes inv: "cov_inv P S C dd" and st: "store_coverage c dd = Inr dd'"
  shows "cov_inv P S (insert c C) dd'"
proof -
  let ?k = "cvg_key c"
  from store_coverage_Inr [OF st] obtain d where
    e: "map_of dd ?k = Some d" and
    m: "map_of dd' = (map_of dd)(?k \<mapsto>
          d(''uncovered'' \<mapsto> cvg_Per_0LLINs c, ''se'' \<mapsto> cvg_LLINs0_SE c))"
    and dist: "distinct (map fst dd) \<Longrightarrow> distinct (map fst dd')"
    by auto
  let ?d = "d(''uncovered'' \<mapsto> cvg_Per_0LLINs c, ''se'' \<mapsto> cvg_LLINs0_SE c)"
  have same: "?d ''pop'' = d ''pop''" "?d ''stock'' = d ''stock''" "?d ''stock_se'' = d ''stock_se''"
    by simp_all
  have val: "?d ''uncovered'' = Some (cvg_Per_0LLINs c)" "?d ''se'' = Some (cvg_LLINs0_SE c)"
    by simp_all
  have old: "map_of dd k = Some d0" if "map_of dd' k = Some d0" "k \<noteq> ?k" for k d0
    using that unfolding m by simp
  have new: "d0 = ?d" if "map_of dd' ?k = Some d0" for d0
    using that unfolding m by simp
  show ?thesis
  proof (rule cov_invI)
    show "distinct (map fst dd')" using dist cov_invD(1) [OF inv] by simp
  next
    fix k
    show "(map_of dd' k = None) = (k \<notin> pop_key ` P)"
      using cov_invD(2) [OF inv, of k] e unfolding m by auto
  next
    fix k d0 assume s: "map_of dd' k = Some d0"
    show "\<exists>p\<in>P. pop_key p = k \<and> d0 ''pop'' = Some (pop_Pop p * 1000)"
    proof (cases "k = ?k")
      case True
      with s new have "d0 ''pop'' = d ''pop''" using same(1) by simp
      with cov_invD(3) [OF inv e] True show ?thesis by simp
    next
      case False
      from cov_invD(3) [OF inv old [OF s False]] show ?thesis .
    qed
  next
    fix k d0 assume s0: "map_of dd' k = Some d0"
    show "if k \<in> stk_key ` S
          then \<exists>s\<in>S. stk_key s = k \<and> stock_ok s d0
          else d0 ''stock'' = None \<and> d0 ''stock_se'' = None"
    proof (cases "k = ?k")
      case True
      with s0 new have d0: "d0 = ?d" by simp
      have "stock_ok s' d0 = stock_ok s' d" for s'
        unfolding d0 by (rule stock_ok_cong) simp_all
      with cov_invD(4) [OF inv e] True d0 show ?thesis by simp
    next
      case False
      from cov_invD(4) [OF inv old [OF s0 False]] show ?thesis .
    qed
  next
    fix k d0 assume s0: "map_of dd' k = Some d0"
    show "if k \<in> cvg_key ` insert c C
          then \<exists>c'\<in>insert c C. cvg_key c' = k \<and> d0 ''uncovered'' = Some (cvg_Per_0LLINs c')
                   \<and> d0 ''se'' = Some (cvg_LLINs0_SE c')
          else d0 ''uncovered'' = None \<and> d0 ''se'' = None"
    proof (cases "k = ?k")
      case True
      with s0 new have "d0 = ?d" by simp
      with val True show ?thesis by auto
    next
      case False
      from cov_invD(5) [OF inv old [OF s0 False]] False show ?thesis
        by (auto split: if_splits)
    qed
  next
    fix k d0 assume s0: "map_of dd' k = Some d0"
    show "dom d0 \<subseteq> {''pop'', ''stock'', ''stock_se'', ''uncovered'', ''se''}"
    proof (cases "k = ?k")
      case True
      with s0 new have "d0 = ?d" by simp
      with cov_invD(6) [OF inv e] show ?thesis by auto
    next
      case False
      from cov_invD(6) [OF inv old [OF s0 False]] show ?thesis .
    qed
  qed
qed

lemma population_phase_total: "\<exists>dd'. foldM store_population pops dd = Inr dd'"
proof (induction pops arbitrary: dd)
  case Nil
  then show ?case by simp
next
  case (Cons p pops)
  obtain t where "store_population p dd = Inr t" using store_population_Inr [of p dd] by blast
  then show ?case using Cons.IH [of t] by (simp add: bind_def)
qed

lemma population_phase:
  assumes "foldM store_population pops [] = Inr dd"
  shows "cov_inv (set pops) {} {} dd"
  using foldM_invariant [of store_population pops "[]" dd "\<lambda>P. cov_inv P {} {}" "{}",
      OF assms cov_inv_empty] pop_step
  by simp

lemma stock_phase:
  assumes "cov_inv P {} C dd" "foldM store_stock stocks dd = Inr dd'"
  shows "cov_inv P (set stocks) C dd'"
  using foldM_invariant [of store_stock stocks dd dd' "\<lambda>S. cov_inv P S C" "{}",
      OF assms(2) assms(1)] stock_step
  by simp

lemma coverage_phase:
  assumes "cov_inv P S {} dd" "foldM store_coverage covs dd = Inr dd'"
  shows "cov_inv P S (set covs) dd'"
  using foldM_invariant [of store_coverage covs dd dd' "cov_inv P S" "{}",
      OF assms(2) assms(1)] coverage_step
  by simp

lemma stock_phase_KeyError:
  assumes inv: "cov_inv P {} C dd" and f: "foldM store_stock stocks dd = Inl KeyError"
  shows "\<exists>s\<in>set stocks. stk_key s \<notin> pop_key ` P"
proof -
  from foldM_fault [of store_stock stocks dd KeyError "\<lambda>S. cov_inv P S C" "{}", OF f inv]
    stock_step
  obtain s B t where s: "s \<in> set stocks" and t: "cov_inv P B C t"
    and e: "store_stock s t = Inl KeyError"
    by blast
  have "stk_key s \<notin> pop_key ` P"
  proof
    assume "stk_key s \<in> pop_key ` P"
    with cov_invD(2) [OF t, of "stk_key s"] obtain d where d: "map_of t (stk_key s) = Some d"
      by auto
    from cov_invD(3) [OF t d] obtain pv where "d ''pop'' = Some pv" by auto
    with store_stock_KeyError [OF e d] show False by simp
  qed
  with s show ?thesis by blast
qed

lemma coverage_phase_fault:
  assumes inv: "cov_inv P S {} dd" and f: "foldM store_coverage covs dd = Inl e"
  shows "e = KeyError \<and> (\<exists>c\<in>set covs. cvg_key c \<notin> pop_key ` P)"
proof -
  from foldM_fault [of store_coverage covs dd e "cov_inv P S" "{}", OF f inv]
    coverage_step
  obtain c B t where c: "c \<in> set covs" and t: "cov_inv P S B t"
    and e: "store_coverage c t = Inl e"
    by blast
  from store_coverage_fault [OF e] cov_invD(2) [OF t, of "cvg_key c"] c
  show ?thesis by blast
qed

lemma cov_inv_dom:
  assumes inv: "cov_inv P S C dd" and s: "map_of dd k = Some d"
  shows "dom d = {''pop''}
               \<union> (if k \<in> stk_key ` S then {''stock'', ''stock_se''} else {})
               \<union> (if k \<in> cvg_key ` C then {''uncovered'', ''se''} else {})"
proof -
  note p = cov_invD(3) [OF inv s] and st = cov_invD(4) [OF inv s]
    and cv = cov_invD(5) [OF inv s] and b = cov_invD(6) [OF inv s]
  have 1: "''pop'' \<in> dom d" using p by auto
  have 2: "(''stock'' \<in> dom d) = (k \<in> stk_key ` S)"
       "(''stock_se'' \<in> dom d) = (k \<in> stk_key ` S)"
    using st by (auto simp: stock_ok_def split: if_splits)
  have 3: "(''uncovered'' \<in> dom d) = (k \<in> cvg_key ` C)"
       "(''se'' \<in> dom d) = (k \<in> cvg_key ` C)"
    using cv by (auto split: if_splits)
  show ?thesis
  proof (rule set_eqI)
    fix x
    show "(x \<in> dom d) = (x \<in> {''pop''}
               \<union> (if k \<in> stk_key ` S then {''stock'', ''stock_se''} else {})
               \<union> (if k \<in> cvg_key ` C then {''uncovered'', ''se''} else {}))"
    proof (cases "x \<in> {''pop'', ''stock'', ''stock_se'', ''uncovered'', ''se''}")
      case True
      then have "x = ''pop'' \<or> x = ''stock'' \<or> x = ''stock_se'' \<or> x = ''uncovered'' \<or> x = ''se''"
        by simp
      then show ?thesis
      proof (elim disjE)
        assume "x = ''pop''" then show ?thesis using 1 by simp
      next
        assume "x = ''stock''" then show ?thesis using 2(1) by simp
      next
        assume "x = ''stock_se''" then show ?thesis using 2(2) by simp
      next
        assume "x = ''uncovered''" then show ?thesis using 3(1) by simp
      next
        assume "x = ''se''" then show ?thesis using 3(2) by simp
      qed
    next
      case False
      with b have "x \<notin> dom d" by blast
      with False show ?thesis by (auto split: if_splits)
    qed
  qed
qed

lemma cov_inv_len:
  assumes inv: "cov_inv P S C dd" and s: "map_of dd k = Some d"
  shows "(len d = 5) = (k \<in> stk_key ` S \<and> k \<in> cvg_key ` C)"
  unfolding len_def cov_inv_dom [OF inv s] by simp

lemma cov_data_dict_Inr:
  assumes "cov_data_dict pops stocks covs = Inr dd"
  shows "\<exists>dd3. cov_inv (set pops) (set stocks) (set covs) dd3 \<and> dd = keep_len 5 dd3"
proof -
  from assms obtain dd1 dd2 dd3 where
    1: "foldM store_population pops [] = Inr dd1" and
    2: "foldM store_stock stocks dd1 = Inr dd2" and
    3: "foldM store_coverage covs dd2 = Inr dd3" and
    4: "dd = keep_len 5 dd3"
    by (auto simp: cov_data_dict_def bind_def split: sum.splits)
  from coverage_phase [OF stock_phase [OF population_phase [OF 1] 2] 3] 4
  show ?thesis by blast
qed

lemma cov_data_dict_keys:
  assumes "cov_data_dict pops stocks covs = Inr dd"
  shows "(k \<in> fst ` set dd)
       = (k \<in> pop_key ` set pops \<and> k \<in> stk_key ` set stocks \<and> k \<in> cvg_key ` set covs)"
proof -
  from cov_data_dict_Inr [OF assms] obtain dd3 where
    inv: "cov_inv (set pops) (set stocks) (set covs) dd3" and dd: "dd = keep_len 5 dd3" by blast
  note ki = keep_len_iff [OF cov_invD(1) [OF inv]]
  show ?thesis
  proof
    assume "k \<in> fst ` set dd"
    then obtain d where "(k, d) \<in> set dd" by auto
    then have s: "map_of dd3 k = Some d" and l: "len d = 5" unfolding dd using ki by auto
    from s cov_invD(2) [OF inv, of k] have "k \<in> pop_key ` set pops" by auto
    with l cov_inv_len [OF inv s]
    show "k \<in> pop_key ` set pops \<and> k \<in> stk_key ` set stocks \<and> k \<in> cvg_key ` set covs"
      by blast
  next
    assume k: "k \<in> pop_key ` set pops \<and> k \<in> stk_key ` set stocks \<and> k \<in> cvg_key ` set covs"
    with cov_invD(2) [OF inv, of k] obtain d where s: "map_of dd3 k = Some d" by auto
    with cov_inv_len [OF inv s] k have "(k, d) \<in> set dd" unfolding dd using ki by auto
    then show "k \<in> fst ` set dd" by force
  qed
qed

lemma cov_data_dict_dom:
  assumes "cov_data_dict pops stocks covs = Inr dd" and "(k, d) \<in> set dd"
  shows "dom d = {''pop'', ''stock'', ''stock_se'', ''uncovered'', ''se''}"
proof -
  from cov_data_dict_Inr [OF assms(1)] obtain dd3 where
    inv: "cov_inv (set pops) (set stocks) (set covs) dd3" and dd: "dd = keep_len 5 dd3" by blast
  from assms(2) have s: "map_of dd3 k = Some d" and l: "len d = 5"
    unfolding dd using keep_len_iff [OF cov_invD(1) [OF inv]] by auto
  from l cov_inv_len [OF inv s] cov_inv_dom [OF inv s] show ?thesis by auto
qed

lemma cov_data_dict_KeyError:
  assumes "cov_data_dict pops stocks covs = Inl KeyError"
  shows "(\<exists>s\<in>set stocks. stk_key s \<notin> pop_key ` set pops)
       \<or> (\<exists>c\<in>set covs. cvg_key c \<notin> pop_key ` set pops)"
proof -
  obtain dd1 where 1: "foldM store_population pops [] = Inr dd1"
    using population_phase_total by blast
  note i1 = population_phase [OF 1]
  show ?thesis
  proof (cases "foldM store_stock stocks dd1")
    case (Inl e)
    with assms 1 have "e = KeyError"
      by (simp add: cov_data_dict_def bind_def)
    with Inl stock_phase_KeyError [OF i1] show ?thesis by blast
  next
    case (Inr dd2)
    note i2 = stock_phase [OF i1 Inr]
    from assms 1 Inr have "foldM store_coverage covs dd2 = Inl KeyError"
      by (auto simp: cov_data_dict_def bind_def split: sum.splits)
    from coverage_phase_fault [OF i2 this] show ?thesis by blast
  qed
qed

lemma ex_cov_data_dict:
  "cov_data_dict ex_populations [ex_stock] [ex_coverage]
     = Inr [((''X'', 2005), [''pop'' \<mapsto> 1200, ''stock'' \<mapsto> 1, ''stock_se'' \<mapsto> 1 / 24,
                             ''uncovered'' \<mapsto> 1 / 4, ''se'' \<mapsto> 1 / 10])]"
  by (simp add: cov_data_dict_def ex_populations_def ex_stock_def ex_coverage_def
      store_population_def store_stock_def store_coverage_def
      setitem_def setfield_def getfield_def getf_def bind_def pydiv_def
      keep_len_def len_def Let_def)

lemma ex_admin_data_dict:
  "admin_data_dict (1 / 2) (admin_llin ex_env @ [ex_admin_only]) (hh_llin_flow ex_env)
     = Inr [((''X'', 2005), [''obs'' \<mapsto> 1000, ''time'' \<mapsto> 0, ''truth'' \<mapsto> 1200, ''se'' \<mapsto> 50])]"
  by (simp add: admin_data_dict_def ex_env_def ex_admin_only_def store_admin_def store_flow_def
      has_key_def setitem_def setfield_def getfield_def getf_def bind_def pypow_def pydiv_def
      keep_len_def len_def Let_def)

text \<open>
  C3, as amended. In \<^verbatim>\<open>admin_err_and_bias\<close> the join never raises \<^verbatim>\<open>KeyError\<close>, and
  the keys that reach model construction are exactly those with an administrative and a
  household record; each of them holds the four fields. In \<^verbatim>\<open>cov_and_zif_fac\<close> the
  keys that reach model construction are exactly those with a population, a stock and a
  coverage record, each holding the five fields, and the join raises no \<^verbatim>\<open>KeyError\<close>
  when every stock and coverage record has a population record for its key. A key that
  lacks a field is dropped; no field is filled in.
\<close>

theorem join_filter:
  "admin_data_dict mu_pi adm flow \<noteq> Inl KeyError
   \<and> (\<forall>dd. admin_data_dict mu_pi adm flow = Inr dd \<longrightarrow>
        (\<forall>k. (k \<in> fst ` set dd) = (k \<in> adm_key ` set adm \<and> k \<in> flow_key ` set flow))
      \<and> (\<forall>(k, d)\<in>set dd. dom d = {''obs'', ''time'', ''truth'', ''se''}))
   \<and> ((\<forall>s\<in>set stocks. stk_key s \<in> pop_key ` set pops)
        \<and> (\<forall>c\<in>set covs. cvg_key c \<in> pop_key ` set pops)
      \<longrightarrow> cov_data_dict pops stocks covs \<noteq> Inl KeyError)
   \<and> (\<forall>dd. cov_data_dict pops stocks covs = Inr dd \<longrightarrow>
        (\<forall>k. (k \<in> fst ` set dd)
           = (k \<in> pop_key ` set pops \<and> k \<in> stk_key ` set stocks \<and> k \<in> cvg_key ` set covs))
      \<and> (\<forall>(k, d)\<in>set dd. dom d = {''pop'', ''stock'', ''stock_se'', ''uncovered'', ''se''}))"
proof (intro conjI allI impI)
  show "admin_data_dict mu_pi adm flow \<noteq> Inl KeyError"
    by (rule admin_data_dict_no_KeyError)
next
  fix dd k assume "admin_data_dict mu_pi adm flow = Inr dd"
  then show "(k \<in> fst ` set dd) = (k \<in> adm_key ` set adm \<and> k \<in> flow_key ` set flow)"
    by (rule admin_data_dict_keys)
next
  fix dd assume a: "admin_data_dict mu_pi adm flow = Inr dd"
  show "\<forall>(k, d)\<in>set dd. dom d = {''obs'', ''time'', ''truth'', ''se''}"
    using admin_data_dict_member(2) [OF a] by blast
next
  assume "(\<forall>s\<in>set stocks. stk_key s \<in> pop_key ` set pops)
        \<and> (\<forall>c\<in>set covs. cvg_key c \<in> pop_key ` set pops)"
  then show "cov_data_dict pops stocks covs \<noteq> Inl KeyError"
    using cov_data_dict_KeyError [of pops stocks covs] by blast
next
  fix dd k assume "cov_data_dict pops stocks covs = Inr dd"
  then show "(k \<in> fst ` set dd)
           = (k \<in> pop_key ` set pops \<and> k \<in> stk_key ` set stocks \<and> k \<in> cvg_key ` set covs)"
    by (rule cov_data_dict_keys)
next
  fix dd assume a: "cov_data_dict pops stocks covs = Inr dd"
  show "\<forall>(k, d)\<in>set dd. dom d = {''pop'', ''stock'', ''stock_se'', ''uncovered'', ''se''}"
    using cov_data_dict_dom [OF a] by blast
qed

theorem join_filter_witness:
  "admin_data_dict (1 / 2) (admin_llin ex_env @ [ex_admin_only]) (hh_llin_flow ex_env)
     = Inr [((''X'', 2005), [''obs'' \<mapsto> 1000, ''time'' \<mapsto> 0, ''truth'' \<mapsto> 1200, ''se'' \<mapsto> 50])]
   \<and> (''Y'', 2006) \<in> adm_key ` set (admin_llin ex_env @ [ex_admin_only])
   \<and> (''Y'', 2006) \<notin> flow_key ` set (hh_llin_flow ex_env)
   \<and> (''Y'', 2006) \<notin> fst ` set [((''X'', 2005 :: int),
          [''obs'' \<mapsto> 1000 :: real, ''time'' \<mapsto> 0, ''truth'' \<mapsto> 1200, ''se'' \<mapsto> 50])]
   \<and> cov_data_dict ex_populations [ex_stock] [ex_coverage]
     = Inr [((''X'', 2005), [''pop'' \<mapsto> 1200, ''stock'' \<mapsto> 1, ''stock_se'' \<mapsto> 1 / 24,
                             ''uncovered'' \<mapsto> 1 / 4, ''se'' \<mapsto> 1 / 10])]
   \<and> (''Y'', 2006) \<in> pop_key ` set ex_populations
   \<and> (''Y'', 2006) \<notin> stk_key ` set [ex_stock]"
  using join_filter [of "1 / 2" "admin_llin ex_env @ [ex_admin_only]" "hh_llin_flow ex_env"
      "[ex_stock]" ex_populations "[ex_coverage]"]
  unfolding ex_admin_data_dict ex_cov_data_dict
  by (simp add: adm_key_def flow_key_def pop_key_def stk_key_def
      ex_env_def ex_admin_only_def ex_populations_def ex_stock_def)

text \<open>
  C3, as stated ("never an error"), fails in \<^verbatim>\<open>cov_and_zif_fac\<close>: a stock record
  whose key has no population record raises \<^verbatim>\<open>KeyError\<close> at
  \<^verbatim>\<open>data_dict[key]['pop']\<close>.
\<close>

theorem join_error_counterexample:
  "cov_data_dict [] [ex_stock] [] = Inl KeyError
   \<and> fst (cov_and_zif_fac (ex_env\<lparr>hh_llin_stock := [ex_stock]\<rparr>) True ex_world) = Inl KeyError"
  by (simp add: cov_data_dict_def store_stock_def getfield_def bind_def ex_stock_def
      cov_and_zif_fac_def in_listdir_def with_sep_def ex_env_def ex_world_def)

section \<open>The likelihood of the administrative counts\<close>

text \<open>
  C6. When \<^verbatim>\<open>admin_err_and_bias\<close> reaches the sampler, \<open>mu_pi\<close> is
  \<open>alpha / (alpha + beta)\<close> of the dictionary that \<^verbatim>\<open>llin_discard_rate()\<close> returned,
  and for every joined key the model holds an observed node built from an administrative
  record \<open>r\<close> and a household record \<open>h\<close> of that key: with
  \<open>time = mean_survey_date - (Year + 0.5)\<close> and
  \<open>truth = Total_LLINs / (1 - mu_pi) ** time\<close>, its value is \<open>log(Program_LLINs)\<close> and
  its likelihood is the normal one around \<open>log(truth) + eps\<close> with variance
  \<open>1.1 * (Total_st / truth)\<^sup>2 + sigma\<^sup>2\<close>.
\<close>

theorem admin_likelihood:
  assumes "in_listdir w (PATH en) ''emp_prior_admin.json'' = Inr present"
      and "recompute \<or> \<not> present"
      and "llin_discard_rate en False w = (Inr discard_prior, w0)"
      and "mu_pi_of discard_prior = Inr mu_pi"
      and "admin_data_dict mu_pi (admin_llin en) (hh_llin_flow en) = Inr dd"
      and "admin_vars (InverseGamma ''error in admin dist data'' 11 1)
             (Normal ''bias in admin dist data'' 0 1) dd = Inr vars"
      and "(k, d) \<in> set dd"
  shows "samples (snd (admin_err_and_bias en recompute w)) = samples w0 @ [(vars, 220000, 20000, 20)]
       \<and> (\<exists>a b. getitem discard_prior ''alpha'' = Inr (JNum a)
              \<and> getitem discard_prior ''beta'' = Inr (JNum b)
              \<and> a + b \<noteq> 0 \<and> mu_pi = a / (a + b))
       \<and> (\<exists>r\<in>set (admin_llin en). \<exists>h\<in>set (hh_llin_flow en). \<exists>q truth.
             (adm_Country r, adm_Year r) = k \<and> (flow_Country h, flow_Year h) = k
           \<and> pypow (1 - mu_pi)
                (flow_mean_survey_date h - (real_of_int (flow_Year h) + 0.5)) = Inr q
           \<and> (mu_pi < 1 \<longrightarrow>
                q = (1 - mu_pi) powr (flow_mean_survey_date h - (real_of_int (flow_Year h) + 0.5)))
           \<and> q \<noteq> 0 \<and> truth = flow_Total_LLINs h / q \<and> truth \<noteq> 0
           \<and> N (admin_obs (np_log (adm_Program_LLINs r)) (np_log truth)
                   (1.1 * (flow_Total_st h / truth)\<^sup>2)) \<in> set vars
           \<and> (\<forall>eps sigma. sigma \<noteq> 0 \<longrightarrow>
                 admin_logp (ln (adm_Program_LLINs r)) (ln truth)
                     (1.1 * (flow_Total_st h / truth)\<^sup>2) eps sigma
                   = Inr (normal_like (ln (adm_Program_LLINs r)) (ln truth + eps)
                            (1 / (1.1 * (flow_Total_st h / truth)\<^sup>2 + sigma\<^sup>2)))
               \<and> variance (normal_like (ln (adm_Program_LLINs r)) (ln truth + eps)
                            (1 / (1.1 * (flow_Total_st h / truth)\<^sup>2 + sigma\<^sup>2)))
                   = 1.1 * (flow_Total_st h / truth)\<^sup>2 + sigma\<^sup>2))"
proof -
  from admin_data_dict_member(1) [OF assms(5,7)] obtain r h where
    r: "r \<in> set (admin_llin en)" "adm_key r = k" and
    h: "h \<in> set (hh_llin_flow en)" "flow_key h = k" and
    o: "d ''obs'' = Some (adm_Program_LLINs r)" and ok: "flow_ok mu_pi h d"
    by blast
  from ok obtain q where
    q: "pypow (1 - mu_pi) (flow_time h) = Inr q" "q \<noteq> 0" and
    t: "d ''truth'' = Some (flow_Total_LLINs h / q)" and
    se: "d ''se'' = Some (flow_Total_st h)"
    unfolding flow_ok_def by blast
  let ?truth = "flow_Total_LLINs h / q"
  let ?lv = "1.1 * (flow_Total_st h / ?truth)\<^sup>2"
  from admin_vars_member [OF assms(6,7)] obtain nd where
    nd: "admin_node d = Inr nd" "N nd \<in> set vars" by blast
  from admin_node_Inr [OF nd(1) o t se]
  have tn: "?truth \<noteq> 0"
    and n: "nd = admin_obs (np_log (adm_Program_LLINs r)) (np_log ?truth)
                  (1.1 * (flow_Total_st h)\<^sup>2 / ?truth\<^sup>2)"
    by simp_all
  have lv: "1.1 * (flow_Total_st h)\<^sup>2 / ?truth\<^sup>2 = ?lv"
    unfolding power_divide by simp
  have node: "N (admin_obs (np_log (adm_Program_LLINs r)) (np_log ?truth) ?lv) \<in> set vars"
    using nd(2) unfolding n lv .
  have pw: "mu_pi < 1 \<longrightarrow> q = (1 - mu_pi) powr flow_time h"
    using q(1) by (auto simp: pypow_pos)
  have nn: "0 \<le> ?lv" by simp
  have like: "\<forall>eps sigma. sigma \<noteq> 0 \<longrightarrow>
                 admin_logp (ln (adm_Program_LLINs r)) (ln ?truth) ?lv eps sigma
                   = Inr (normal_like (ln (adm_Program_LLINs r)) (ln ?truth + eps)
                            (1 / (?lv + sigma\<^sup>2)))
               \<and> variance (normal_like (ln (adm_Program_LLINs r)) (ln ?truth + eps)
                            (1 / (?lv + sigma\<^sup>2))) = ?lv + sigma\<^sup>2"
    using admin_logp_eq [OF nn] by blast
  have keys: "(adm_Country r, adm_Year r) = k" "(flow_Country h, flow_Year h) = k"
    using r(2) h(2) by (simp_all add: adm_key_def flow_key_def)
  have third: "\<exists>r\<in>set (admin_llin en). \<exists>h\<in>set (hh_llin_flow en). \<exists>q truth.
             (adm_Country r, adm_Year r) = k \<and> (flow_Country h, flow_Year h) = k
           \<and> pypow (1 - mu_pi)
                (flow_mean_survey_date h - (real_of_int (flow_Year h) + 0.5)) = Inr q
           \<and> (mu_pi < 1 \<longrightarrow>
                q = (1 - mu_pi) powr (flow_mean_survey_date h - (real_of_int (flow_Year h) + 0.5)))
           \<and> q \<noteq> 0 \<and> truth = flow_Total_LLINs h / q \<and> truth \<noteq> 0
           \<and> N (admin_obs (np_log (adm_Program_LLINs r)) (np_log truth)
                   (1.1 * (flow_Total_st h / truth)\<^sup>2)) \<in> set vars
           \<and> (\<forall>eps sigma. sigma \<noteq> 0 \<longrightarrow>
                 admin_logp (ln (adm_Program_LLINs r)) (ln truth)
                     (1.1 * (flow_Total_st h / truth)\<^sup>2) eps sigma
                   = Inr (normal_like (ln (adm_Program_LLINs r)) (ln truth + eps)
                            (1 / (1.1 * (flow_Total_st h / truth)\<^sup>2 + sigma\<^sup>2)))
               \<and> variance (normal_like (ln (adm_Program_LLINs r)) (ln truth + eps)
                            (1 / (1.1 * (flow_Total_st h / truth)\<^sup>2 + sigma\<^sup>2)))
                   = 1.1 * (flow_Total_st h / truth)\<^sup>2 + sigma\<^sup>2)"
    apply (rule bexI [OF _ r(1)])
    apply (rule bexI [OF _ h(1)])
    apply (rule exI [of _ q])
    apply (rule exI [of _ ?truth])
    using keys q pw tn node like unfolding flow_time_def
    apply (intro conjI)
    apply assumption+
    apply (rule refl)
    apply assumption+
    done
  from admin_sampled [OF assms(1-6)] mu_pi_of_Inr [OF assms(4)] third
  show ?thesis by (intro conjI)
qed

lemma ex_llin_cached:
  "llin_discard_rate ex_env False ex_cached
     = (Inr (JObj [(''alpha'', JNum (3 / 2)), (''beta'', JNum (3 / 2))]), ex_cached)"
  using llin_cached [of ex_cached ex_env] ex_listed
  by (simp add: load_file_def) (simp add: ex_cached_def ex_world_def ex_env_def)

lemma ex_mu_pi: "mu_pi_of (JObj [(''alpha'', JNum (3 / 2)), (''beta'', JNum (3 / 2))]) = Inr (1 / 2)"
  by (simp add: mu_pi_of_def getitem_def as_float_def bind_def pydiv_def)

lemma ex_admin_dd:
  "admin_data_dict (1 / 2) (admin_llin ex_env) (hh_llin_flow ex_env)
     = Inr [((''X'', 2005), [''obs'' \<mapsto> 1000, ''time'' \<mapsto> 0, ''truth'' \<mapsto> 1200, ''se'' \<mapsto> 50])]"
  by (simp add: admin_data_dict_def ex_env_def store_admin_def store_flow_def
      has_key_def setitem_def setfield_def getfield_def getf_def bind_def pypow_def pydiv_def
      keep_len_def len_def Let_def)

lemma ex_admin_vars:
  "admin_vars (InverseGamma ''error in admin dist data'' 11 1)
     (Normal ''bias in admin dist data'' 0 1)
     [((''X'', 2005), [''obs'' \<mapsto> 1000, ''time'' \<mapsto> 0, ''truth'' \<mapsto> 1200, ''se'' \<mapsto> 50])]
   = Inr [N (InverseGamma ''error in admin dist data'' 11 1),
          N (Normal ''bias in admin dist data'' 0 1),
          N (admin_obs (Some (ln 1000)) (Some (ln 1200)) (1.1 * 50\<^sup>2 / 1200\<^sup>2))]"
  by (simp add: admin_vars_def admin_node_def getf_def bind_def pydiv_def np_log_def)

theorem admin_likelihood_witness:
  "samples (snd (admin_err_and_bias ex_env False ex_cached))
     = [([N (InverseGamma ''error in admin dist data'' 11 1),
          N (Normal ''bias in admin dist data'' 0 1),
          N (admin_obs (Some (ln 1000)) (Some (ln 1200)) (1.1 * 50\<^sup>2 / 1200\<^sup>2))],
         220000, 20000, 20)]
   \<and> admin_logp (ln 1000) (ln 1200) (1.1 * (50 / 1200)\<^sup>2) 0 1
     = Inr (normal_like (ln 1000) (ln 1200) (1 / (1.1 * (50 / 1200)\<^sup>2 + 1)))"
proof -
  have 1: "in_listdir ex_cached (PATH ex_env) ''emp_prior_admin.json'' = Inr False"
    by (simp add: in_listdir_def ex_cached_def ex_world_def ex_env_def with_sep_def)
  have 2: "False \<or> \<not> False" by simp
  have 7: "((''X'', 2005), [''obs'' \<mapsto> 1000, ''time'' \<mapsto> 0, ''truth'' \<mapsto> 1200, ''se'' \<mapsto> 50])
      \<in> set [((''X'', 2005 :: int),
                [''obs'' \<mapsto> 1000 :: real, ''time'' \<mapsto> 0, ''truth'' \<mapsto> 1200, ''se'' \<mapsto> 50])]"
    by simp
  have s: "samples ex_cached = []" by (simp add: ex_cached_def ex_world_def)
  have l: "admin_logp (ln 1000) (ln 1200) (1.1 * (50 / 1200)\<^sup>2) 0 1
     = Inr (normal_like (ln 1000) (ln 1200) (1 / (1.1 * (50 / 1200)\<^sup>2 + 1)))"
    using admin_logp_eq(1) [of "1.1 * (50 / 1200)\<^sup>2" 1 "ln 1000" "ln 1200" 0] by simp
  from admin_likelihood [OF 1 2 ex_llin_cached ex_mu_pi ex_admin_dd ex_admin_vars 7]
  have "samples (snd (admin_err_and_bias ex_env False ex_cached))
     = samples ex_cached @ [([N (InverseGamma ''error in admin dist data'' 11 1),
          N (Normal ''bias in admin dist data'' 0 1),
          N (admin_obs (Some (ln 1000)) (Some (ln 1200)) (1.1 * 50\<^sup>2 / 1200\<^sup>2))],
         220000, 20000, 20)]"
    by (rule conjunct1)
  with s l show ?thesis by simp
qed

text \<open>
  The three estimators at work in the concrete scenario: each invokes the sampler once,
  with the constants of C8.
\<close>

theorem sampler_constants_witness:
  "samples (snd (run Reten ex_env True ex_world))
     = [([N (Beta ''Pr[net is lost]'' 1 2), N (InverseGamma ''standard error'' 11 1)],
         220000, 20000, 20)]
   \<and> samples (snd (run Admin ex_env False ex_cached))
     = [([N (InverseGamma ''error in admin dist data'' 11 1),
          N (Normal ''bias in admin dist data'' 0 1),
          N (admin_obs (Some (ln 1000)) (Some (ln 1200)) (1.1 * 50\<^sup>2 / 1200\<^sup>2))],
         220000, 20000, 20)]
   \<and> samples (snd (run Cov ex_env True ex_world))
     = [([N (Normal ''coverage factor'' 5 3), N (Beta ''zero inflation factor'' 1 10)],
         220000, 20000, 20)]"
proof -
  have r: "in_listdir ex_world (PATH ex_env) ''emp_prior_reten.json'' = Inr False
        \<and> (True \<or> \<not> False)"
    by (simp add: in_listdir_def ex_world_def ex_env_def with_sep_def)
  have a: "in_listdir ex_cached (PATH ex_env) ''emp_prior_admin.json'' = Inr False
        \<and> (False \<or> \<not> False)
        \<and> llin_discard_rate ex_env False ex_cached
            = (Inr (JObj [(''alpha'', JNum (3 / 2)), (''beta'', JNum (3 / 2))]), ex_cached)
        \<and> mu_pi_of (JObj [(''alpha'', JNum (3 / 2)), (''beta'', JNum (3 / 2))]) = Inr (1 / 2)
        \<and> admin_data_dict (1 / 2) (admin_llin ex_env) (hh_llin_flow ex_env)
            = Inr [((''X'', 2005), [''obs'' \<mapsto> 1000, ''time'' \<mapsto> 0, ''truth'' \<mapsto> 1200,
                                    ''se'' \<mapsto> 50])]
        \<and> admin_vars (InverseGamma ''error in admin dist data'' 11 1)
              (Normal ''bias in admin dist data'' 0 1)
              [((''X'', 2005), [''obs'' \<mapsto> 1000, ''time'' \<mapsto> 0, ''truth'' \<mapsto> 1200, ''se'' \<mapsto> 50])]
            = Inr [N (InverseGamma ''error in admin dist data'' 11 1),
                   N (Normal ''bias in admin dist data'' 0 1),
                   N (admin_obs (Some (ln 1000)) (Some (ln 1200)) (1.1 * 50\<^sup>2 / 1200\<^sup>2))]"
    using ex_llin_cached ex_mu_pi ex_admin_dd ex_admin_vars
    by (simp add: in_listdir_def ex_cached_def ex_world_def ex_env_def with_sep_def)
  have c: "in_listdir ex_world (PATH ex_env) ''emp_prior_cov.json'' = Inr False
        \<and> (True \<or> \<not> False)
        \<and> cov_data_dict (population ex_env) (hh_llin_stock ex_env) (llin_coverage ex_env) = Inr []
        \<and> cov_vars (Normal ''coverage factor'' 5 3) (Beta ''zero inflation factor'' 1 10) []
            = Inr [N (Normal ''coverage factor'' 5 3), N (Beta ''zero inflation factor'' 1 10)]"
    by (simp add: in_listdir_def ex_world_def ex_env_def with_sep_def cov_data_dict_def
        cov_vars_def bind_def keep_len_def)
  have e: "samples ex_world = []" "samples ex_cached = []" "retention ex_env = []"
    by (simp_all add: ex_world_def ex_cached_def ex_env_def)
  have 1: "samples (snd (llin_discard_rate ex_env True ex_world))
     = samples ex_world @ [(retention_vars (Beta ''Pr[net is lost]'' 1 2)
           (InverseGamma ''standard error'' 11 1) (retention ex_env), 10000 * 20 + 20000, 20000, 20)]"
    by (rule mp [OF sampler_constants [where en = ex_env and recompute = True and w = ex_world
        and ?present1.0 = False, THEN conjunct2, THEN conjunct1] r])
  have 2: "samples (snd (admin_err_and_bias ex_env False ex_cached))
     = samples ex_cached @ [([N (InverseGamma ''error in admin dist data'' 11 1),
          N (Normal ''bias in admin dist data'' 0 1),
          N (admin_obs (Some (ln 1000)) (Some (ln 1200)) (1.1 * 50\<^sup>2 / 1200\<^sup>2))],
         10000 * 20 + 20000, 20000, 20)]"
    using sampler_constants [where en = ex_env and recompute = False and w = ex_cached
        and ?present2.0 = False and ?w0.0 = ex_cached and mu_pi = "1 / 2"
        and discard_prior = "JObj [(''alpha'', JNum (3 / 2)), (''beta'', JNum (3 / 2))]"
        and ?dd2.0 = "[((''X'', 2005), [''obs'' \<mapsto> 1000, ''time'' \<mapsto> 0, ''truth'' \<mapsto> 1200,
                                        ''se'' \<mapsto> 50])]"
        and ?vars2.0 = "[N (InverseGamma ''error in admin dist data'' 11 1),
                   N (Normal ''bias in admin dist data'' 0 1),
                   N (admin_obs (Some (ln 1000)) (Some (ln 1200)) (1.1 * 50\<^sup>2 / 1200\<^sup>2))]",
        THEN conjunct2, THEN conjunct2, THEN conjunct1] a
    by (rule mp)
  have 3: "samples (snd (cov_and_zif_fac ex_env True ex_world))
     = samples ex_world @ [([N (Normal ''coverage factor'' 5 3),
          N (Beta ''zero inflation factor'' 1 10)], 10000 * 20 + 20000, 20000, 20)]"
    using sampler_constants [where en = ex_env and recompute = True and w = ex_world
        and ?present3.0 = False and ?dd3.0 = "[]"
        and ?vars3.0 = "[N (Normal ''coverage factor'' 5 3),
                         N (Beta ''zero inflation factor'' 1 10)]",
        THEN conjunct2, THEN conjunct2, THEN conjunct2] c
    by (rule mp)
  from 1 2 3 show ?thesis
    by (simp add: e retention_vars_def)
qed

section \<open>The entry point\<close>

text \<open>
  C4. The module never imports \<^verbatim>\<open>optparse\<close>. With the names that the star imports
  of numpy and pymc bind, the entry point stops at \<^verbatim>\<open>optparse.OptionParser(usage)\<close>
  with \<^verbatim>\<open>NameError\<close> and runs no estimator.
\<close>

theorem main_optparse_unbound:
  "main ex_env [] ex_world = (Inl NameError, ex_world)"
  by (simp add: main_def ex_env_def)

text \<open>
  Were \<^verbatim>\<open>optparse\<close> bound, no positional argument would run the three estimators in
  turn, each with \<^verbatim>\<open>recompute=True\<close>.
\<close>

lemma main_optparse_bound:
  assumes "''optparse'' \<in> set (star_names en)" and "parse_args en argv = Inr []"
      and "llin_discard_rate en True w = (Inr j1, w1)"
      and "admin_err_and_bias en True w1 = (Inr j2, w2)"
  shows "main en argv w = (map_sum id (\<lambda>_. ()) (fst (cov_and_zif_fac en True w2)),
                            snd (cov_and_zif_fac en True w2))"
  using assms by (auto simp: main_def split: sum.splits prod.splits)

end
